theory Spec2Isabelle
  imports Main "HOL-Library.Sublist" "HOL-Library.FSet"
begin

text \<open>
  A model of the crawl-and-download pipeline of \<open>pinterest-dl\<close>: the registry filter, the
  caption writers and the pruner of \<open>pinterest_dl/scrapers/scraper_base.py\<close>, and the crawl
  loop and the recursive expansion of \<open>gui.py\<close>. Functions of the source are functions here;
  what they mutate is passed in and returned; every call on the browser, the file system or
  a library that can raise is given by its outcome, and an exception that leaves a function
  is part of its result. The definitions come first, the properties after them.
\<close>

section \<open>Python values used by \<open>gui.py\<close> and \<open>scraper_base.py\<close>\<close>

text \<open>
  Exceptions are values. Only classes derived from \<open>Exception\<close> are listed. In Python 3
  \<open>IOError\<close> and \<open>socket.error\<close> are both names of \<open>OSError\<close>, and \<open>socket.timeout\<close> is
  \<open>TimeoutError\<close>, a subclass of \<open>OSError\<close>; \<open>json.JSONDecodeError\<close> and
  \<open>UnicodeDecodeError\<close> are two unrelated subclasses of \<open>ValueError\<close>.
\<close>

datatype pyexc =
    OSError
  | TimeoutError
  | FileNotFoundError
  | PermissionError
  | JSONDecodeError
  | UnicodeDecodeError
  | ValueError
  | TypeError
  | StaleElementReferenceException
  | NoSuchElementException
  | WebDriverException
  | RecursionError

text \<open>\<open>isinstance(e, OSError)\<close>: what \<open>except IOError\<close> and \<open>except socket.error\<close> catch.\<close>

fun is_OSError :: "pyexc \<Rightarrow> bool" where
  "is_OSError OSError = True"
| "is_OSError TimeoutError = True"
| "is_OSError FileNotFoundError = True"
| "is_OSError PermissionError = True"
| "is_OSError _ = False"

text \<open>The id of a media item is a Python int or str; a dict distinguishes \<open>123\<close> from \<open>"123"\<close>.\<close>

datatype pyid = IntId int | StrId string

text \<open>
  \<open>PinterestMedia\<close>, with the attributes the two files read and write. \<open>resolution\<close> may be
  \<open>None\<close> (\<open>download_media\<close> tests for it); \<open>video_stream\<close> is only ever tested for truth;
  \<open>local_path\<close> is \<open>None\<close> until \<open>set_local_path\<close> is called. A path is kept as the string
  \<open>str(path)\<close>.
\<close>

record PinterestMedia =
  media_id :: pyid
  src :: string
  alt :: "string option"
  origin :: "string option"
  resolution :: "(int \<times> int) option"
  video_stream :: bool
  local_path :: "string option"

subsection \<open>Strings\<close>

text \<open>\<open>sub in s\<close> on strings.\<close>

fun py_in :: "string \<Rightarrow> string \<Rightarrow> bool" where
  "py_in sub [] = (sub = [])"
| "py_in sub (c # cs) = (prefix sub (c # cs) \<or> py_in sub cs)"

text \<open>
  \<open>s.replace(old, new)\<close>: every occurrence of \<open>old\<close>, leftmost first and without overlap.
  For an empty \<open>old\<close> Python puts \<open>new\<close> before every character and at the end.
\<close>

function replace_nonempty :: "string \<Rightarrow> string \<Rightarrow> string \<Rightarrow> string" where
  "replace_nonempty old new [] = []"
| "replace_nonempty old new (c # cs) =
     (if old \<noteq> [] \<and> prefix old (c # cs)
      then new @ replace_nonempty old new (drop (length old) (c # cs))
      else c # replace_nonempty old new cs)"
  by pat_completeness auto
termination
  by (relation "measure (\<lambda>(old, new, s). length s)") auto

definition py_replace :: "string \<Rightarrow> string \<Rightarrow> string \<Rightarrow> string" where
  "py_replace s old new =
     (if old = [] then new @ concat (map (\<lambda>c. c # new) s) else replace_nonempty old new s)"

text \<open>Truth of an \<open>Optional[str]\<close>: \<open>None\<close> and the empty string are false.\<close>

fun truthy :: "string option \<Rightarrow> bool" where
  "truthy None = False"
| "truthy (Some s) = (s \<noteq> [])"

text \<open>\<open>str(n)\<close> for an int, and \<open>str(id)\<close> for an id.\<close>

definition digit_char :: "nat \<Rightarrow> char" where
  "digit_char d = ''0123456789'' ! d"

function str_nat :: "nat \<Rightarrow> string" where
  "str_nat n = (if n < 10 then [digit_char n] else str_nat (n div 10) @ [digit_char (n mod 10)])"
  by pat_completeness auto
termination
  by (relation "measure id") auto

definition str_int :: "int \<Rightarrow> string" where
  "str_int i = (if i < 0 then CHR ''-'' # str_nat (nat (- i)) else str_nat (nat i))"

fun str_id :: "pyid \<Rightarrow> string" where
  "str_id (IntId i) = str_int i"
| "str_id (StrId s) = s"

section \<open>Resolution pruning\<close>



text \<open>
  The list comprehension of \<open>scrape_images\<close> (\<open>gui.py\<close>, "Filter by resolution").
  \<open>img.resolution[0]\<close> raises \<open>TypeError\<close> when the resolution is \<open>None\<close>.
\<close>

fun resolution_comprehension ::
  "int \<Rightarrow> int \<Rightarrow> PinterestMedia list \<Rightarrow> pyexc + PinterestMedia list" where
  "resolution_comprehension res_x res_y [] = Inr []"
| "resolution_comprehension res_x res_y (img # imgs) =
     (case resolution img of
        None \<Rightarrow> Inl TypeError
      | Some (w, h) \<Rightarrow>
          (case resolution_comprehension res_x res_y imgs of
             Inl e \<Rightarrow> Inl e
           | Inr kept \<Rightarrow> Inr (if res_x \<le> w \<and> res_y \<le> h then img # kept else kept)))"

definition filter_by_resolution ::
  "int \<Rightarrow> int \<Rightarrow> PinterestMedia list \<Rightarrow> pyexc + PinterestMedia list" where
  "filter_by_resolution res_x res_y imgs_data =
     (if 0 < res_x \<or> 0 < res_y then resolution_comprehension res_x res_y imgs_data
      else Inr imgs_data)"

section \<open>The download registry (\<open>scraper_base.py\<close>)\<close>

text \<open>A JSON document, as \<open>json.load\<close> returns it.\<close>

datatype json =
    JNull
  | JBool bool
  | JNumber int
  | JString string
  | JArray "json list"
  | JObject "(string \<times> json) list"

text \<open>
  What the file system answers for \<open>downloaded.json\<close>: the path does not exist, or it exists
  and \<open>open(registry_path, "r", encoding="utf-8")\<close> followed by \<open>json.load(f)\<close> either raises
  or returns the parsed document.
\<close>

datatype registry_file = Absent | Present "pyexc + json"

datatype log_record = LogInfo | LogWarning | LogError

text \<open>
  \<open>_ScraperBase._load_downloaded_registry\<close>. The handler is
  \<open>except (json.JSONDecodeError, IOError)\<close>; any other exception leaves the function.
  The result is the log written and the value returned or the exception raised.
\<close>

definition load_downloaded_registry :: "registry_file \<Rightarrow> log_record list \<times> (pyexc + json)" where
  "load_downloaded_registry f =
     (case f of
        Absent \<Rightarrow> ([], Inr (JObject []))
      | Present (Inr doc) \<Rightarrow> ([], Inr doc)
      | Present (Inl e) \<Rightarrow>
          if e = JSONDecodeError \<or> is_OSError e then ([LogWarning], Inr (JObject []))
          else ([], Inl e))"

text \<open>
  \<open>_ScraperBase._save_downloaded_registry\<close>: the argument is the exception that
  \<open>open(registry_path, "w", encoding="utf-8")\<close> or \<open>json.dump\<close> raises, if any; the handler
  is \<open>except IOError\<close>. The result is the log written and the exception raised, if any.
\<close>

definition save_downloaded_registry :: "pyexc option \<Rightarrow> log_record list \<times> pyexc option" where
  "save_downloaded_registry write_outcome =
     (case write_outcome of
        None \<Rightarrow> ([], None)
      | Some e \<Rightarrow> if is_OSError e then ([LogError], None) else ([], Some e))"

text \<open>
  The registry as \<open>download_media\<close> uses it: a dict from item id to an entry, itself a dict
  that may hold \<open>"path"\<close> and \<open>"downloaded_at"\<close>.
\<close>

record registry_entry =
  entry_path :: "string option"
  entry_downloaded_at :: "string option"

type_synonym registry = "pyid \<rightharpoonup> registry_entry"

text \<open>
  \<open>Path(registry[item.id].get("path", ""))\<close>, as the string of that path: \<open>Path("")\<close> is the
  current directory, whose string is \<open>"."\<close>; any other string is taken to be normalised
  already.
\<close>

definition registered_path :: "registry_entry \<Rightarrow> string" where
  "registered_path e =
     (case entry_path e of None \<Rightarrow> ''.'' | Some p \<Rightarrow> if p = [] then ''.'' else p)"

text \<open>
  The loop "Filter out already downloaded media" of \<open>download_media\<close>. \<open>exists\<close> is
  \<open>Path.exists\<close> on the file system at the time of the call. The state is the registry
  (entries are deleted in place), the list \<open>to_download\<close> and the items gone through so far,
  each as \<open>set_local_path\<close> left it.
\<close>

fun filter_downloaded ::
  "(string \<Rightarrow> bool) \<Rightarrow> PinterestMedia list \<Rightarrow>
   registry \<times> PinterestMedia list \<times> PinterestMedia list \<Rightarrow>
   registry \<times> PinterestMedia list \<times> PinterestMedia list" where
  "filter_downloaded exists [] st = st"
| "filter_downloaded exists (item # media) (registry, to_download, done) =
     (case registry (media_id item) of
        Some e \<Rightarrow>
          if exists (registered_path e)
          then filter_downloaded exists media
                 (registry, to_download, done @ [item\<lparr>local_path := Some (registered_path e)\<rparr>])
          else filter_downloaded exists media
                 (registry(media_id item := None), to_download @ [item], done @ [item])
      | None \<Rightarrow>
          filter_downloaded exists media (registry, to_download @ [item], done @ [item]))"

text \<open>
  \<open>download_media\<close> up to the call of the downloader: either it returns the media at once
  ("All media already downloaded"), or it goes on to download \<open>to_download\<close> with the
  repaired registry.
\<close>

datatype download_step =
    Returned "PinterestMedia list"
  | Downloading registry "PinterestMedia list" "PinterestMedia list"

definition download_media ::
  "(string \<Rightarrow> bool) \<Rightarrow> registry \<Rightarrow> PinterestMedia list \<Rightarrow> download_step" where
  "download_media exists registry media =
     (case filter_downloaded exists media (registry, [], []) of
        (registry', to_download, media') \<Rightarrow>
          if to_download = [] then Returned media'
          else Downloading registry' to_download media')"

text \<open>
  The specification's words for the same decision (section 4.1): an item is already
  satisfied iff its id is present and the recorded path still exists on disk; it is stale
  when the id is present and the recorded path does not exist.
\<close>

definition already_satisfied :: "(string \<Rightarrow> bool) \<Rightarrow> registry \<Rightarrow> PinterestMedia \<Rightarrow> bool" where
  "already_satisfied exists registry item =
     (\<exists>e. registry (media_id item) = Some e \<and> exists (registered_path e))"


section \<open>Captions (\<open>scraper_base.py\<close>)\<close>

text \<open>
  \<open>PurePath.name\<close>, \<open>.suffix\<close> and \<open>.stem\<close> on the string of a path (CPython's \<open>pathlib\<close>
  up to 3.13): the name is the last component, and empty for the path \<open>"."\<close>; with \<open>i = name.rfind('.')\<close>, the suffix is
  \<open>name[i:]\<close> and the stem \<open>name[:i]\<close> when \<open>0 < i < len(name) - 1\<close>, and otherwise the suffix
  is empty and the stem is the name.
\<close>

definition path_name :: "string \<Rightarrow> string" where
  "path_name p = (if p = ''.'' then [] else rev (takeWhile (\<lambda>c. c \<noteq> CHR ''/'') (rev p)))"

definition rfind :: "char \<Rightarrow> string \<Rightarrow> nat option" where
  "rfind c s =
     (if c \<in> set s then Some (length s - 1 - length (takeWhile (\<lambda>x. x \<noteq> c) (rev s)))
      else None)"

definition path_suffix :: "string \<Rightarrow> string" where
  "path_suffix p =
     (let name = path_name p in
      case rfind (CHR ''.'') name of
        None \<Rightarrow> []
      | Some i \<Rightarrow> if 0 < i \<and> i + 1 < length name then drop i name else [])"





text \<open>
  \<open>_ScraperBase.add_captions_to_meta\<close>. \<open>meta_write_comment\<close> and \<open>meta_write_subject\<close> are
  methods of \<open>PinterestMedia\<close> outside the source files: each is given as the exception it
  raises on an item, if any. What the function does is the list of its effects: a field
  written, or the warning logged by the handler \<open>except Exception\<close>, which ends the work on
  that item only.
\<close>

datatype meta_effect =
    WroteComment string string
  | WroteSubject string string
  | LoggedWarning string pyexc

definition write_subject ::
  "(PinterestMedia \<Rightarrow> pyexc option) \<Rightarrow> PinterestMedia \<Rightarrow> string \<Rightarrow> meta_effect list" where
  "write_subject meta_write_subject img lp =
     (if truthy (alt img) then
        (case meta_write_subject img of
           Some e \<Rightarrow> [LoggedWarning lp e]
         | None \<Rightarrow> [WroteSubject lp (the (alt img))])
      else [])"

definition caption_meta ::
  "(PinterestMedia \<Rightarrow> pyexc option) \<Rightarrow> (PinterestMedia \<Rightarrow> pyexc option) \<Rightarrow>
   PinterestMedia \<Rightarrow> meta_effect list" where
  "caption_meta meta_write_comment meta_write_subject img =
     (if video_stream img then []
      else case local_path img of
        None \<Rightarrow> []
      | Some lp \<Rightarrow>
          if path_suffix lp = ''.gif'' then []
          else if truthy (origin img) then
            (case meta_write_comment img of
               Some e \<Rightarrow> [LoggedWarning lp e]
             | None \<Rightarrow>
                 WroteComment lp (the (origin img)) # write_subject meta_write_subject img lp)
          else write_subject meta_write_subject img lp)"

fun add_captions_to_meta ::
  "(PinterestMedia \<Rightarrow> pyexc option) \<Rightarrow> (PinterestMedia \<Rightarrow> pyexc option) \<Rightarrow>
   PinterestMedia list \<Rightarrow> meta_effect list" where
  "add_captions_to_meta meta_write_comment meta_write_subject [] = []"
| "add_captions_to_meta meta_write_comment meta_write_subject (img # images) =
     caption_meta meta_write_comment meta_write_subject img
       @ add_captions_to_meta meta_write_comment meta_write_subject images"

section \<open>The crawl loop (\<open>patched_scrape\<close> in \<open>gui.py\<close>)\<close>

text \<open>
  \<open>str.strip()\<close> and \<open>int(s)\<close> on ASCII text. \<open>str.strip\<close> removes the characters for which
  \<open>str.isspace\<close> holds, the separators \<open>0x1C\<close> to \<open>0x1F\<close> among them. \<open>int\<close> of an ASCII
  string removes only the white space of C (space, tab, line feed, vertical tab, form feed,
  carriage return), takes an
  optional sign, and then wants decimal digits, with single underscores allowed between
  digits; on anything else it raises \<open>ValueError\<close>.
\<close>

definition is_space :: "char \<Rightarrow> bool" where
  "is_space c = (c \<in> set [CHR '' '', CHR 0x09, CHR 0x0A, CHR 0x0B, CHR 0x0C, CHR 0x0D,
                           CHR 0x1C, CHR 0x1D, CHR 0x1E, CHR 0x1F])"

definition py_strip :: "string \<Rightarrow> string" where
  "py_strip s = rev (dropWhile is_space (rev (dropWhile is_space s)))"

definition is_c_space :: "char \<Rightarrow> bool" where
  "is_c_space c = (c \<in> set [CHR '' '', CHR 0x09, CHR 0x0A, CHR 0x0B, CHR 0x0C, CHR 0x0D])"

definition c_strip :: "string \<Rightarrow> string" where
  "c_strip s = rev (dropWhile is_c_space (rev (dropWhile is_c_space s)))"

definition is_digit :: "char \<Rightarrow> bool" where
  "is_digit c = (c \<in> set ''0123456789'')"

definition digit_val :: "char \<Rightarrow> int" where
  "digit_val c = int (length (takeWhile (\<lambda>d. d \<noteq> c) ''0123456789''))"

fun digits_ok :: "string \<Rightarrow> bool" where
  "digits_ok [] = False"
| "digits_ok [c] = is_digit c"
| "digits_ok (c # d # cs) =
     (if is_digit c then (if d = CHR ''_'' then digits_ok cs else digits_ok (d # cs)) else False)"

definition digits_value :: "string \<Rightarrow> int" where
  "digits_value s = foldl (\<lambda>a c. 10 * a + digit_val c) 0 (filter is_digit s)"

definition py_int :: "string \<Rightarrow> pyexc + int" where
  "py_int s =
     (case c_strip s of
        [] \<Rightarrow> Inl ValueError
      | c # cs \<Rightarrow>
          if c = CHR ''-'' then (if digits_ok cs then Inr (- digits_value cs) else Inl ValueError)
          else if c = CHR ''+'' then (if digits_ok cs then Inr (digits_value cs) else Inl ValueError)
          else if digits_ok (c # cs) then Inr (digits_value (c # cs)) else Inl ValueError)"

text \<open>\<open>not alt or not alt.strip()\<close>.\<close>

fun blank :: "string option \<Rightarrow> bool" where
  "blank None = True"
| "blank (Some a) = (py_strip a = [])"

text \<open>
  What the browser shows. Every call on the web driver either returns or raises, so every
  attribute read is a sum. An \<open>img\<close> element gives its \<open>alt\<close> and its \<open>src\<close>; a pin container
  gives its \<open>img\<close> elements, the \<open>href\<close> of its first link and its \<open>data-test-pin-id\<close>. One pass
  of the loop sees: the result of \<open>find_elements\<close> for the pin containers; the exception, if
  any, raised while scrolling (finding \<open>body\<close>, \<open>send_keys\<close>, \<open>randdelay\<close>); and the
  exception, if any, raised while looking for and clicking the load-more button.
\<close>

record image_element =
  img_alt :: "pyexc + string option"
  img_src :: "pyexc + string option"

record pin_div =
  div_images :: "pyexc + image_element list"
  div_href :: "pyexc + string option"
  div_pin_id :: "pyexc + string option"

record pass_view =
  found_divs :: "pyexc + pin_div list"
  scroll_error :: "pyexc option"
  load_more_error :: "pyexc option"

text \<open>
  What the scan has found: the set \<open>unique_results\<close> of source URLs and the list
  \<open>imgs_data\<close>. Both are mutated in place, so what was added before an exception stays.
\<close>

type_synonym found = "string fset \<times> PinterestMedia list"

text \<open>
  The body of \<open>if src not in unique_results\<close>: the URL is added to the set first, then
  \<open>int(id)\<close> is evaluated for the new \<open>PinterestMedia\<close>, which is appended.
\<close>

definition add_candidate ::
  "string \<Rightarrow> string \<Rightarrow> string option \<Rightarrow> string option \<Rightarrow> found \<Rightarrow> pyexc option \<times> found" where
  "add_candidate pid s a href f =
     (case py_int pid of
        Inl e \<Rightarrow> (Some e, (finsert s (fst f), snd f))
      | Inr n \<Rightarrow>
          (None, (finsert s (fst f),
                  snd f @ [\<lparr>media_id = IntId n, src = s, alt = a, origin = href,
                            resolution = Some (0, 0), video_stream = False,
                            local_path = None\<rparr>])))"

text \<open>\<open>for image in images\<close>; the \<open>break\<close> leaves this loop only.\<close>

fun scan_images ::
  "int \<Rightarrow> bool \<Rightarrow> string \<Rightarrow> string option \<Rightarrow> image_element list \<Rightarrow> found \<Rightarrow>
   pyexc option \<times> found" where
  "scan_images num ensure_alt pid href [] f = (None, f)"
| "scan_images num ensure_alt pid href (el # images) f =
     (case img_alt el of
        Inl e \<Rightarrow> (Some e, f)
      | Inr a \<Rightarrow>
          if ensure_alt \<and> blank a then scan_images num ensure_alt pid href images f
          else
            (case img_src el of
               Inl e \<Rightarrow> (Some e, f)
             | Inr None \<Rightarrow> scan_images num ensure_alt pid href images f
             | Inr (Some s) \<Rightarrow>
                 if s \<noteq> [] \<and> py_in ''/236x/'' s
                    \<and> py_replace s ''/236x/'' ''/originals/'' |\<notin>| fst f
                 then
                   (case add_candidate pid (py_replace s ''/236x/'' ''/originals/'') a href f of
                      (Some e, f') \<Rightarrow> (Some e, f')
                    | (None, f') \<Rightarrow>
                        if num \<le> int (fcard (fst f')) then (None, f')
                        else scan_images num ensure_alt pid href images f')
                 else scan_images num ensure_alt pid href images f))"

text \<open>\<open>for div in divs\<close>.\<close>

fun scan_divs :: "int \<Rightarrow> bool \<Rightarrow> pin_div list \<Rightarrow> found \<Rightarrow> pyexc option \<times> found" where
  "scan_divs num ensure_alt [] f = (None, f)"
| "scan_divs num ensure_alt (d # divs) f =
     (if num \<le> int (fcard (fst f)) then (None, f)
      else
        (case div_images d of
           Inl e \<Rightarrow> (Some e, f)
         | Inr images \<Rightarrow>
             (case div_href d of
                Inl e \<Rightarrow> (Some e, f)
              | Inr href \<Rightarrow>
                  (case div_pin_id d of
                     Inl e \<Rightarrow> (Some e, f)
                   | Inr pid \<Rightarrow>
                       if \<not> truthy pid then scan_divs num ensure_alt divs f
                       else
                         (case scan_images num ensure_alt (the pid) href images f of
                            (Some e, f') \<Rightarrow> (Some e, f')
                          | (None, f') \<Rightarrow> scan_divs num ensure_alt divs f')))))"

text \<open>
  The state of the \<open>while\<close> loop. (\<open>previous_divs\<close> is assigned and never read.)
\<close>

record scrape_state =
  unique_results :: "string fset"
  imgs_data :: "PinterestMedia list"
  scroll_count :: nat
  no_new_scrolls :: nat

datatype pass_end = Continue | Break | Raised pyexc

text \<open>
  One run of the body of the \<open>while\<close> loop, up to the handlers. An exception during the scan
  leaves both counters as they were; the stall counter is set after the scan; the scroll
  comes after the stall test, and \<open>scroll_count\<close> is incremented after the scroll; whatever
  the load-more block raises is swallowed by its bare \<open>except: pass\<close>.
\<close>

definition one_pass :: "int \<Rightarrow> bool \<Rightarrow> pass_view \<Rightarrow> scrape_state \<Rightarrow> pass_end \<times> scrape_state" where
  "one_pass num ensure_alt v st =
     (case found_divs v of
        Inl e \<Rightarrow> (Raised e, st)
      | Inr divs \<Rightarrow>
          (case scan_divs num ensure_alt divs (unique_results st, imgs_data st) of
             (Some e, (u, d)) \<Rightarrow> (Raised e, st\<lparr>unique_results := u, imgs_data := d\<rparr>)
           | (None, (u, d)) \<Rightarrow>
               (let stalled =
                      (if fcard u - fcard (unique_results st) = 0 then no_new_scrolls st + 1 else 0);
                    st' = st\<lparr>unique_results := u, imgs_data := d, no_new_scrolls := stalled\<rparr>
                in if 10 \<le> stalled then (Break, st')
                   else
                     (case scroll_error v of
                        Some e \<Rightarrow> (Raised e, st')
                      | None \<Rightarrow> (Continue, st'\<lparr>scroll_count := scroll_count st' + 1\<rparr>)))))"

text \<open>
  The \<open>while scroll_count < 800\<close> loop with its handlers, run against the list of what the
  browser shows pass after pass. \<open>StaleElementReferenceException\<close> is caught inside the loop,
  which goes on; \<open>socket.error\<close> and \<open>socket.timeout\<close> are caught outside it and the function
  returns \<open>imgs_data\<close>; any other exception leaves the function. The value is \<open>None\<close> when
  the loop is still running after the last pass of the list.
\<close>

fun scrape_loop ::
  "int \<Rightarrow> bool \<Rightarrow> pass_view list \<Rightarrow> scrape_state \<Rightarrow> (pyexc + PinterestMedia list) option" where
  "scrape_loop num ensure_alt [] st =
     (if scroll_count st < 800 then None else Some (Inr (imgs_data st)))"
| "scrape_loop num ensure_alt (v # views) st =
     (if scroll_count st < 800 then
        (case one_pass num ensure_alt v st of
           (Continue, st') \<Rightarrow> scrape_loop num ensure_alt views st'
         | (Break, st') \<Rightarrow> Some (Inr (imgs_data st'))
         | (Raised e, st') \<Rightarrow>
             if e = StaleElementReferenceException then scrape_loop num ensure_alt views st'
             else if is_OSError e then Some (Inr (imgs_data st'))
             else Some (Inl e))
      else Some (Inr (imgs_data st)))"

definition initial_state :: scrape_state where
  "initial_state = \<lparr>unique_results = {||}, imgs_data = [], scroll_count = 0, no_new_scrolls = 0\<rparr>"

text \<open>
  \<open>patched_scrape\<close>: \<open>navigation\<close> is the exception raised by \<open>self.webdriver.get(url)\<close>, if
  any; it is inside the outer \<open>try\<close> and outside the inner one.
\<close>

definition patched_scrape ::
  "int \<Rightarrow> bool \<Rightarrow> pyexc option \<Rightarrow> pass_view list \<Rightarrow> (pyexc + PinterestMedia list) option" where
  "patched_scrape num ensure_alt navigation views =
     (case navigation of
        Some e \<Rightarrow> if is_OSError e then Some (Inr []) else Some (Inl e)
      | None \<Rightarrow> scrape_loop num ensure_alt views initial_state)"

text \<open>
  The loop of \<open>scrape_images\<close> over \<open>scraped_imgs\<close>: an item is kept when its id has not been
  seen, and the loop stops when \<open>limit\<close> items have been kept.
\<close>

fun keep_new_ids ::
  "int \<Rightarrow> PinterestMedia list \<Rightarrow> pyid fset \<times> PinterestMedia list \<times> int \<Rightarrow> PinterestMedia list" where
  "keep_new_ids limit [] (scraped_ids, imgs, scraped) = imgs"
| "keep_new_ids limit (img # scraped_imgs) (scraped_ids, imgs, scraped) =
     (if media_id img |\<notin>| scraped_ids then
        (if limit \<le> scraped + 1 then imgs @ [img]
         else keep_new_ids limit scraped_imgs
                (finsert (media_id img) scraped_ids, imgs @ [img], scraped + 1))
      else keep_new_ids limit scraped_imgs (scraped_ids, imgs, scraped))"

definition scraped_candidates :: "int \<Rightarrow> PinterestMedia list \<Rightarrow> PinterestMedia list" where
  "scraped_candidates limit scraped_imgs = keep_new_ids limit scraped_imgs ({||}, [], 0)"

text \<open>
  For stating properties: the source URLs a list of passes shows, in the order the scan
  reads them, each thumbnail URL in its full-resolution form; and every URL shown at all.
\<close>

definition image_srcs :: "image_element list \<Rightarrow> string list" where
  "image_srcs images =
     concat (map (\<lambda>i. case img_src i of Inr (Some s) \<Rightarrow> [s] | _ \<Rightarrow> []) images)"

definition div_srcs :: "pin_div list \<Rightarrow> string list" where
  "div_srcs divs =
     concat (map (\<lambda>d. case div_images d of Inr images \<Rightarrow> image_srcs images | Inl e \<Rightarrow> []) divs)"

definition view_srcs :: "pass_view \<Rightarrow> string list" where
  "view_srcs v = (case found_divs v of Inr divs \<Rightarrow> div_srcs divs | Inl e \<Rightarrow> [])"

definition upgraded :: "string list \<Rightarrow> string list" where
  "upgraded srcs =
     map (\<lambda>s. py_replace s ''/236x/'' ''/originals/'') (filter (py_in ''/236x/'') srcs)"

text \<open>
  \<open>grows f f' srcs\<close>: from \<open>f\<close> to \<open>f'\<close> the list \<open>imgs_data\<close> has only been appended to, the
  set has only grown, and the appended candidates carry, in the order shown, upgraded URLs
  of \<open>srcs\<close>, pairwise different, absent from the set before and present after.
\<close>

definition grows :: "found \<Rightarrow> found \<Rightarrow> string list \<Rightarrow> bool" where
  "grows f f' srcs =
     (\<exists>new. snd f' = snd f @ new \<and> subseq (map src new) (upgraded srcs)
        \<and> fst f |\<subseteq>| fst f' \<and> distinct (map src new)
        \<and> list_all (\<lambda>m. src m |\<notin>| fst f \<and> src m |\<in>| fst f') new)"

definition found_of :: "scrape_state \<Rightarrow> found" where
  "found_of st = (unique_results st, imgs_data st)"






section \<open>The recursive expansion (\<open>scrape_images\<close> in \<open>gui.py\<close>)\<close>

text \<open>
  \<open>re.search(r'/pin/(\d+)/', url)\<close> on ASCII text: the leftmost place where \<open>/pin/\<close> is
  followed by one or more digits and a slash; the group is the digits. (\<open>\d+\<close> is greedy,
  and giving digits back cannot make the next character a slash.)
\<close>

fun pin_search :: "string \<Rightarrow> string option" where
  "pin_search [] = None"
| "pin_search (c # cs) =
     (if prefix ''/pin/'' (c # cs)
         \<and> takeWhile is_digit (drop 5 (c # cs)) \<noteq> []
         \<and> prefix ''/'' (dropWhile is_digit (drop 5 (c # cs)))
      then Some (takeWhile is_digit (drop 5 (c # cs)))
      else pin_search cs)"

definition original_pin_id :: "string \<Rightarrow> string option" where
  "original_pin_id url = (if py_in ''/pin/'' url then pin_search url else None)"

definition visual_search_url :: "pyid \<Rightarrow> string" where
  "visual_search_url i =
     ''https://se.pinterest.com/pin/'' @ str_id i
       @ ''/visual-search/?cropSource=5&entrypoint=closeup_cta&rs=flashlight''"

definition new_project_name :: "pyid \<Rightarrow> string" where
  "new_project_name i = ''20251228_Test_'' @ str_id i"

text \<open>
  One call of \<open>scrape_images\<close>, by its \<open>url\<close>, \<open>project_name\<close> and \<open>recurse_factor\<close>.
\<close>

record invocation =
  inv_url :: string
  inv_project_name :: string
  inv_recurse_factor :: int

text \<open>
  What the world answers to one call of \<open>scrape_images\<close>, in the order in which the call asks:
  \<^item> \<open>entry_error\<close>: the exception raised before the checks, if any: \<open>cache_path.mkdir\<close>
    failing, or \<open>RecursionError\<close> when the interpreter has no frame left for the call;
  \<^item> \<open>browser_error\<close>: the exception raised by \<open>PinterestDL.with_browser\<close>, if any;
  \<^item> \<open>scrape_result\<close>: what \<open>with_cookies_path\<close> and \<open>api_instance.scrape(url, batch_limit)\<close>
    return or raise;
  \<^item> \<open>download_result\<close>: what \<open>downloader.download_concurrent\<close> does with the batch: it raises,
    or it returns, and then the value is the list of the items whose files were written (with
    \<open>fail_fast=False\<close> an item that fails is passed over);
  \<^item> \<open>log_error\<close>: the exception raised while appending to \<open>downloaded_urls.log\<close>, if any;
  \<^item> \<open>cache_error\<close>: the exception raised by \<open>io.write_json\<close>, if any;
  \<^item> \<open>api_error\<close>: the exception that leaves the branch without the browser, if any (its
    \<open>scrape_and_download\<close> is inside \<open>try\<close>/\<open>except Exception\<close>; creating the API object, reading
    the cache file and writing the log are not).
\<close>

record call_outcome =
  entry_error :: "pyexc option"
  browser_error :: "pyexc option"
  scrape_result :: "pyexc + PinterestMedia list"
  download_result :: "pyexc + PinterestMedia list"
  log_error :: "pyexc option"
  cache_error :: "pyexc option"
  api_error :: "pyexc option"

text \<open>
  \<open>scrape_images\<close> and its loop "Recursive visual search" (\<open>visual_search\<close>). The state is the
  list of the calls of \<open>scrape_images\<close> made so far, this one included from its start;
  \<open>world n url\<close> is what the world answers to the call made after \<open>n\<close> others; \<open>no_cookies\<close> says
  that cookies are asked for and the cookie file is missing. The result is the exception
  that leaves the call, if any, and the list of calls.

  The downloader is called inside \<open>try\<close>/\<open>except Exception\<close>, which stores and prints the
  error, and what the downloader returns is dropped: whatever \<open>download_result\<close> is, the call
  goes on to the log and to the recursion over \<open>imgs_data\<close>, the batch it handed to the
  downloader. The cache file is written after the recursion. An exception of a recursive
  call leaves every caller up to the first one.
\<close>

function scrape_images ::
  "(nat \<Rightarrow> string \<Rightarrow> call_outcome) \<Rightarrow> bool \<Rightarrow> int \<Rightarrow> int \<Rightarrow> int \<Rightarrow>
   string \<Rightarrow> string \<Rightarrow> int \<Rightarrow> bool \<Rightarrow> invocation list \<Rightarrow> pyexc option \<times> invocation list"
and visual_search ::
  "(nat \<Rightarrow> string \<Rightarrow> call_outcome) \<Rightarrow> bool \<Rightarrow> int \<Rightarrow> int \<Rightarrow> int \<Rightarrow>
   string option \<Rightarrow> int \<Rightarrow> PinterestMedia list \<Rightarrow> invocation list \<Rightarrow>
   pyexc option \<times> invocation list"
where
  "scrape_images world no_cookies limit res_x res_y url project_name recurse_factor use_browser calls =
     (case entry_error (world (length calls) url) of
        Some e \<Rightarrow>
          (Some e, calls @ [\<lparr>inv_url = url, inv_project_name = project_name,
                              inv_recurse_factor = recurse_factor\<rparr>])
      | None \<Rightarrow>
          if url = [] \<or> project_name = [] then
            (None, calls @ [\<lparr>inv_url = url, inv_project_name = project_name,
                              inv_recurse_factor = recurse_factor\<rparr>])
          else if \<not> use_browser then
            (api_error (world (length calls) url),
             calls @ [\<lparr>inv_url = url, inv_project_name = project_name,
                        inv_recurse_factor = recurse_factor\<rparr>])
          else
            (case browser_error (world (length calls) url) of
               Some e \<Rightarrow>
                 (Some e, calls @ [\<lparr>inv_url = url, inv_project_name = project_name,
                                     inv_recurse_factor = recurse_factor\<rparr>])
             | None \<Rightarrow>
                 if no_cookies then
                   (None, calls @ [\<lparr>inv_url = url, inv_project_name = project_name,
                                     inv_recurse_factor = recurse_factor\<rparr>])
                 else
                   (case scrape_result (world (length calls) url) of
                      Inl e \<Rightarrow>
                        (Some e, calls @ [\<lparr>inv_url = url, inv_project_name = project_name,
                                            inv_recurse_factor = recurse_factor\<rparr>])
                    | Inr scraped_imgs \<Rightarrow>
                        (case filter_by_resolution res_x res_y
                                (scraped_candidates limit scraped_imgs) of
                           Inl e \<Rightarrow>
                             (Some e, calls @ [\<lparr>inv_url = url, inv_project_name = project_name,
                                                 inv_recurse_factor = recurse_factor\<rparr>])
                         | Inr imgs \<Rightarrow>
                             if imgs = [] then
                               (cache_error (world (length calls) url),
                                calls @ [\<lparr>inv_url = url, inv_project_name = project_name,
                                           inv_recurse_factor = recurse_factor\<rparr>])
                             else
                               (let attempt = download_result (world (length calls) url) in
                                case log_error (world (length calls) url) of
                                  Some e \<Rightarrow>
                                    (Some e,
                                     calls @ [\<lparr>inv_url = url, inv_project_name = project_name,
                                                inv_recurse_factor = recurse_factor\<rparr>])
                                | None \<Rightarrow>
                                    if 0 < recurse_factor then
                                      (case visual_search world no_cookies limit res_x res_y
                                              (original_pin_id url) (recurse_factor - 1) imgs
                                              (calls @ [\<lparr>inv_url = url,
                                                          inv_project_name = project_name,
                                                          inv_recurse_factor = recurse_factor\<rparr>]) of
                                         (Some e, calls') \<Rightarrow> (Some e, calls')
                                       | (None, calls') \<Rightarrow>
                                           (cache_error (world (length calls) url), calls'))
                                    else
                                      (cache_error (world (length calls) url),
                                       calls @ [\<lparr>inv_url = url, inv_project_name = project_name,
                                                  inv_recurse_factor = recurse_factor\<rparr>]))))))"
| "visual_search world no_cookies limit res_x res_y seed depth [] calls = (None, calls)"
| "visual_search world no_cookies limit res_x res_y seed depth (img # imgs) calls =
     (if Some (str_id (media_id img)) = seed then
        visual_search world no_cookies limit res_x res_y seed depth imgs calls
      else
        (case scrape_images world no_cookies limit res_x res_y
                (visual_search_url (media_id img)) (new_project_name (media_id img)) depth True calls of
           (Some e, calls') \<Rightarrow> (Some e, calls')
         | (None, calls') \<Rightarrow>
             visual_search world no_cookies limit res_x res_y seed depth imgs calls'))"
  by pat_completeness auto
termination
  by (relation "measures
       [\<lambda>x. case x of
          Inl (world, nc, limit, rx, ry, url, pn, rf, ub, calls) \<Rightarrow> 2 * nat rf
        | Inr (world, nc, limit, rx, ry, seed, d, imgs, calls) \<Rightarrow> 2 * nat d + 1,
        \<lambda>x. case x of
          Inl (world, nc, limit, rx, ry, url, pn, rf, ub, calls) \<Rightarrow> 0
        | Inr (world, nc, limit, rx, ry, seed, d, imgs, calls) \<Rightarrow> length imgs]") auto

declare scrape_images.simps [simp del]

text \<open>The call made for an item by the recursion, and the geometric sum.\<close>

definition child_call :: "int \<Rightarrow> PinterestMedia \<Rightarrow> invocation" where
  "child_call depth img =
     \<lparr>inv_url = visual_search_url (media_id img),
      inv_project_name = new_project_name (media_id img),
      inv_recurse_factor = depth\<rparr>"

definition geometric :: "nat \<Rightarrow> nat \<Rightarrow> nat" where
  "geometric l n = (\<Sum>i\<le>n. l ^ i)"

text \<open>
  For stating what a call adds to the list of calls. \<open>call_ok\<close>: the call itself, then calls
  of smaller depth, within the geometric bound. \<open>search_ok\<close>: calls of depth at most \<open>d\<close>,
  those of depth \<open>d\<close> being, when the loop ends normally, the calls for the items other than
  the seed, in order.
\<close>

definition call_ok :: "int \<Rightarrow> string \<Rightarrow> string \<Rightarrow> int \<Rightarrow> invocation list \<Rightarrow> invocation list \<Rightarrow> bool" where
  "call_ok limit url pn rf calls calls' =
     (\<exists>new. calls' = calls @ \<lparr>inv_url = url, inv_project_name = pn, inv_recurse_factor = rf\<rparr> # new
        \<and> list_all (\<lambda>i. inv_recurse_factor i < rf) new
        \<and> (1 \<le> limit \<longrightarrow> length new + 1 \<le> geometric (nat limit) (nat rf)))"

definition search_ok ::
  "int \<Rightarrow> string option \<Rightarrow> int \<Rightarrow> PinterestMedia list \<Rightarrow> invocation list \<Rightarrow>
   pyexc option \<times> invocation list \<Rightarrow> bool" where
  "search_ok limit seed d imgs calls res =
     (\<exists>new. snd res = calls @ new
        \<and> list_all (\<lambda>i. inv_recurse_factor i \<le> d) new
        \<and> (fst res = None \<longrightarrow>
             filter (\<lambda>i. inv_recurse_factor i = d) new
               = map (child_call d) (filter (\<lambda>img. Some (str_id (media_id img)) \<noteq> seed) imgs))
        \<and> (1 \<le> limit \<longrightarrow> length new \<le> length imgs * geometric (nat limit) (nat d)))"

section \<open>Concrete inputs\<close>


definition pin_item :: "int \<Rightarrow> string option \<Rightarrow> string option \<Rightarrow> PinterestMedia" where
  "pin_item n caption lp =
     \<lparr>media_id = IntId n, src = ''https://i.pinimg.com/originals/'' @ str_int n @ ''.jpg'',
      alt = caption, origin = Some (''https://www.pinterest.com/pin/'' @ str_int n @ ''/''),
      resolution = Some (0, 0), video_stream = False, local_path = lp\<rparr>"

definition two_entries :: registry where
  "two_entries =
     [IntId 1 \<mapsto> \<lparr>entry_path = Some ''out/1.jpg'', entry_downloaded_at = Some ''1700000000.0''\<rparr>,
      IntId 2 \<mapsto> \<lparr>entry_path = Some ''out/2.jpg'', entry_downloaded_at = Some ''1700000001.0''\<rparr>]"

definition only_first_on_disk :: "string \<Rightarrow> bool" where
  "only_first_on_disk p = (p = ''out/1.jpg'')"



definition fails_on :: "int \<Rightarrow> PinterestMedia \<Rightarrow> pyexc option" where
  "fails_on n img = (if media_id img = IntId n then Some OSError else None)"

definition never_fails_on :: "PinterestMedia \<Rightarrow> pyexc option" where
  "never_fails_on img = None"

text \<open>Pages for concrete runs of the crawl loop.\<close>

definition pin_with_image :: "string \<Rightarrow> string \<Rightarrow> pin_div" where
  "pin_with_image pid s =
     \<lparr>div_images = Inr [\<lparr>img_alt = Inr (Some ''a pin''), img_src = Inr (Some s)\<rparr>],
      div_href = Inr (Some ''https://www.pinterest.com/pin/1/''),
      div_pin_id = Inr (Some pid)\<rparr>"

definition page :: "pin_div list \<Rightarrow> pass_view" where
  "page divs = \<lparr>found_divs = Inr divs, scroll_error = None, load_more_error = None\<rparr>"

definition candidate :: "int \<Rightarrow> string \<Rightarrow> PinterestMedia" where
  "candidate n s =
     \<lparr>media_id = IntId n, src = s, alt = Some ''a pin'',
      origin = Some ''https://www.pinterest.com/pin/1/'', resolution = Some (0, 0),
      video_stream = False, local_path = None\<rparr>"

definition two_forms_page :: pass_view where
  "two_forms_page =
     page [pin_with_image ''1'' ''https://i.pinimg.com/236x/a.jpg'',
           pin_with_image ''1'' ''https://i.pinimg.com/originals/a.jpg'',
           pin_with_image ''1'' ''https://i.pinimg.com/236x/b.jpg'',
           pin_with_image ''2'' ''https://i.pinimg.com/236x/a.jpg'']"

definition mixed_page :: pass_view where
  "mixed_page =
     page [pin_with_image ''7'' ''https://i.pinimg.com/originals/z.jpg'',
           pin_with_image ''8'' ''https://i.pinimg.com/236x/y.jpg'']"


definition load_more_fails :: pass_view where
  "load_more_fails = \<lparr>found_divs = Inr [], scroll_error = None, load_more_error = Some OSError\<rparr>"

definition after_two_forms :: scrape_state where
  "after_two_forms =
     \<lparr>unique_results = {|''https://i.pinimg.com/originals/a.jpg'',
                          ''https://i.pinimg.com/originals/b.jpg''|},
      imgs_data = [candidate 1 ''https://i.pinimg.com/originals/a.jpg'',
                   candidate 1 ''https://i.pinimg.com/originals/b.jpg''],
      scroll_count = 1, no_new_scrolls = 0\<rparr>"

definition socket_page :: pass_view where
  "socket_page = \<lparr>found_divs = Inl TimeoutError, scroll_error = None, load_more_error = None\<rparr>"

definition scroll_fails :: pass_view where
  "scroll_fails =
     \<lparr>found_divs = Inr [pin_with_image ''8'' ''https://i.pinimg.com/236x/y.jpg''],
      scroll_error = Some TimeoutError, load_more_error = None\<rparr>"

definition broken_image :: pin_div where
  "broken_image =
     \<lparr>div_images = Inr [\<lparr>img_alt = Inr (Some ''a pin''), img_src = Inl TimeoutError\<rparr>],
      div_href = Inr None, div_pin_id = Inr (Some ''9'')\<rparr>"

definition scan_fails :: pass_view where
  "scan_fails = page [pin_with_image ''8'' ''https://i.pinimg.com/236x/y.jpg'', broken_image]"

text \<open>Answers of the world for concrete runs of \<open>scrape_images\<close>.\<close>

definition answers ::
  "PinterestMedia list \<Rightarrow> PinterestMedia list \<Rightarrow> call_outcome" where
  "answers found written =
     \<lparr>entry_error = None, browser_error = None, scrape_result = Inr found,
      download_result = Inr written, log_error = None, cache_error = None, api_error = None\<rparr>"

definition three_pins :: "PinterestMedia list" where
  "three_pins =
     [candidate 1 ''https://i.pinimg.com/originals/a.jpg'',
      candidate 2 ''https://i.pinimg.com/originals/b.jpg'',
      candidate 3 ''https://i.pinimg.com/originals/c.jpg'']"

definition related :: "nat \<Rightarrow> string \<Rightarrow> call_outcome" where
  "related n url =
     (if url = ''https://www.pinterest.com/pin/1/'' then answers three_pins three_pins
      else if url = visual_search_url (IntId 2) then
        answers [candidate 1 ''https://i.pinimg.com/originals/a.jpg'',
                 candidate 2 ''https://i.pinimg.com/originals/b.jpg'']
                [candidate 1 ''https://i.pinimg.com/originals/a.jpg'',
                 candidate 2 ''https://i.pinimg.com/originals/b.jpg'']
      else answers [] [])"

definition nothing_downloaded :: "nat \<Rightarrow> string \<Rightarrow> call_outcome" where
  "nothing_downloaded n url =
     (if url = ''https://www.pinterest.com/pin/1/'' then answers three_pins []
      else answers [] [])"

definition out_of_frames :: "nat \<Rightarrow> string \<Rightarrow> call_outcome" where
  "out_of_frames n url =
     (if url = ''https://www.pinterest.com/pin/1/'' then answers three_pins three_pins
      else (answers [] [])\<lparr>entry_error := Some RecursionError\<rparr>)"

section \<open>Properties of the resolution pruning\<close>


lemma resolution_comprehension_total:
  "(\<forall>img \<in> set imgs. resolution img \<noteq> None) \<Longrightarrow>
   resolution_comprehension rx ry imgs =
     Inr (filter (\<lambda>img. rx \<le> fst (the (resolution img)) \<and> ry \<le> snd (the (resolution img))) imgs)"
  by (induction imgs) (auto split: option.splits prod.splits)

lemma filter_by_resolution_total:
  "(\<forall>img \<in> set imgs. resolution img \<noteq> None) \<Longrightarrow>
   filter_by_resolution rx ry imgs =
     Inr (if 0 < rx \<or> 0 < ry
          then filter (\<lambda>img. rx \<le> fst (the (resolution img)) \<and> ry \<le> snd (the (resolution img))) imgs
          else imgs)"
  by (simp add: filter_by_resolution_def resolution_comprehension_total)



text \<open>
  The filter of \<open>scrape_images\<close> runs before the download, on the resolution the crawl gave
  the item. \<open>patched_scrape\<close> builds every candidate with \<open>resolution=(0, 0)\<close>, so any
  positive minimum empties such a batch.
\<close>

lemma unmeasured_batch_is_emptied:
  assumes "\<forall>img \<in> set imgs. resolution img = Some (0, 0)" and "0 < res_x \<or> 0 < res_y"
  shows "filter_by_resolution res_x res_y imgs = Inr []"
proof -
  from assms(1) have "\<forall>img \<in> set imgs. resolution img \<noteq> None" by simp
  from filter_by_resolution_total [OF this, of res_x res_y] assms show ?thesis
    by (auto simp: filter_empty_conv)
qed

lemma add_candidate_unmeasured:
  "add_candidate pid s a href f = (None, f') \<Longrightarrow>
   \<exists>m. snd f' = snd f @ [m] \<and> resolution m = Some (0, 0)"
  by (auto simp: add_candidate_def split: sum.splits)

section \<open>Properties of the registry filter of \<open>download_media\<close>\<close>

lemma already_satisfied_after_repair:
  assumes "\<And>k. registry' k = registry k \<or> (registry' k = None \<and> (\<exists>e. registry k = Some e \<and> \<not> exists (registered_path e)))"
  shows "already_satisfied exists registry' item = already_satisfied exists registry item"
proof -
  from assms [of "media_id item"] show ?thesis
    unfolding already_satisfied_def by (elim disjE conjE exE) simp_all
qed




text \<open>A run of the registry filter: item 1 is on disk, the file of item 2 is gone, item 3 is new.\<close>

lemma download_media_example:
  "download_media only_first_on_disk two_entries [pin_item 1 None None, pin_item 2 None None, pin_item 3 None None]
   = Downloading (two_entries(IntId 2 := None)) [pin_item 2 None None, pin_item 3 None None]
       [pin_item 1 None (Some ''out/1.jpg''), pin_item 2 None None, pin_item 3 None None]"
  by (simp add: download_media_def two_entries_def only_first_on_disk_def pin_item_def
      registered_path_def)

text \<open>
  The keys of a JSON object are strings, so a registry that \<open>json.load\<close> returned has string
  keys only. An item whose id is a Python int, as \<open>patched_scrape\<close> builds them with
  \<open>int(id)\<close>, is then never found in it, whatever is on disk.
\<close>

lemma int_id_not_in_loaded_registry:
  assumes "dom registry \<subseteq> range StrId" and "media_id item = IntId n"
  shows "\<not> already_satisfied exists registry item"
proof
  assume "already_satisfied exists registry item"
  then have "IntId n \<in> dom registry"
    using assms(2) by (auto simp: already_satisfied_def)
  with assms(1) show False by auto
qed

section \<open>Properties of loading and saving the registry\<close>

lemma load_registry_absent: "load_downloaded_registry Absent = ([], Inr (JObject []))"
  by (simp add: load_downloaded_registry_def)

lemma load_registry_caught:
  "e = JSONDecodeError \<or> is_OSError e \<Longrightarrow>
   load_downloaded_registry (Present (Inl e)) = ([LogWarning], Inr (JObject []))"
  by (simp add: load_downloaded_registry_def)

lemma load_registry_not_caught:
  "e \<noteq> JSONDecodeError \<Longrightarrow> \<not> is_OSError e \<Longrightarrow>
   load_downloaded_registry (Present (Inl e)) = ([], Inl e)"
  by (simp add: load_downloaded_registry_def)

lemma save_registry_oserror_logged:
  "is_OSError e \<Longrightarrow> save_downloaded_registry (Some e) = ([LogError], None)"
  by (simp add: save_downloaded_registry_def)

text \<open>
  C6. A \<open>downloaded.json\<close> that exists but is not valid UTF-8 makes \<open>json.load\<close> raise
  \<open>UnicodeDecodeError\<close>, which the handler of \<open>_load_downloaded_registry\<close> does not catch: the
  exception reaches the caller. A file holding a JSON document that is not an object, such
  as \<open>[]\<close>, is returned as it is, not as an empty map.
\<close>

theorem load_registry_raises_on_undecodable_file:
  "load_downloaded_registry (Present (Inl UnicodeDecodeError)) = ([], Inl UnicodeDecodeError)
   \<and> load_downloaded_registry (Present (Inr (JArray []))) = ([], Inr (JArray []))"
  by (simp add: load_downloaded_registry_def)

section \<open>Properties of the captions written into metadata\<close>

lemma add_captions_to_meta_append:
  "add_captions_to_meta wc ws (xs @ ys) = add_captions_to_meta wc ws xs @ add_captions_to_meta wc ws ys"
  by (induction xs) simp_all

text \<open>
  C9. \<open>add_captions_to_meta\<close> does nothing for a video-stream item and nothing for an item
  whose local file has the suffix \<open>.gif\<close>. A failing metadata write on an item is logged as a
  warning and ends the work on that item only: whatever stands before and after it in the
  list is processed as if the item were not there.
\<close>

theorem add_captions_to_meta_skips_and_isolates_failures:
  "(video_stream img \<longrightarrow> caption_meta wc ws img = [])
   \<and> (local_path img = Some lp \<and> path_suffix lp = ''.gif'' \<longrightarrow> caption_meta wc ws img = [])
   \<and> (\<not> video_stream img \<and> local_path img = Some lp \<and> path_suffix lp \<noteq> ''.gif''
        \<and> truthy (origin img) \<and> wc img = Some e \<longrightarrow>
      caption_meta wc ws img = [LoggedWarning lp e])
   \<and> (\<not> video_stream img \<and> local_path img = Some lp \<and> path_suffix lp \<noteq> ''.gif''
        \<and> truthy (alt img) \<and> (truthy (origin img) \<longrightarrow> wc img = None) \<and> ws img = Some e \<longrightarrow>
      caption_meta wc ws img =
        (if truthy (origin img) then [WroteComment lp (the (origin img))] else [])
          @ [LoggedWarning lp e])
   \<and> add_captions_to_meta wc ws (before @ img # after) =
       add_captions_to_meta wc ws before @ caption_meta wc ws img
         @ add_captions_to_meta wc ws after"
  by (simp add: caption_meta_def write_subject_def add_captions_to_meta_append)

theorem add_captions_to_meta_skips_and_isolates_failures_witness:
  "caption_meta never_fails_on never_fails_on ((pin_item 1 (Some ''clip'') (Some ''out/1.mp4''))\<lparr>video_stream := True\<rparr>) = []
   \<and> caption_meta never_fails_on never_fails_on (pin_item 2 (Some ''loop'') (Some ''out/2.gif'')) = []
   \<and> add_captions_to_meta (fails_on 3) never_fails_on
        ([pin_item 2 (Some ''loop'') (Some ''out/2.gif'')]
          @ pin_item 3 (Some ''a cat'') (Some ''out/3.jpg'')
          # [pin_item 4 (Some ''a dog'') (Some ''out/4.jpg'')])
      = [LoggedWarning ''out/3.jpg'' OSError,
         WroteComment ''out/4.jpg'' ''https://www.pinterest.com/pin/4/'',
         WroteSubject ''out/4.jpg'' ''a dog'']"
proof -
  have sfx: "path_suffix ''out/2.gif'' = ''.gif''" "path_suffix ''out/3.jpg'' = ''.jpg''"
    "path_suffix ''out/4.jpg'' = ''.jpg''"
    by (simp_all add: path_suffix_def path_name_def rfind_def)
  have n4: "str_int 4 = ''4''"
    by (simp add: str_int_def digit_char_def)
  have v: "video_stream ((pin_item 1 (Some ''clip'') (Some ''out/1.mp4''))\<lparr>video_stream := True\<rparr>)"
    by simp
  have g: "local_path (pin_item 2 (Some ''loop'') (Some ''out/2.gif'')) = Some ''out/2.gif''
      \<and> path_suffix ''out/2.gif'' = ''.gif''"
    by (simp add: pin_item_def sfx)
  have f: "\<not> video_stream (pin_item 3 (Some ''a cat'') (Some ''out/3.jpg''))
      \<and> local_path (pin_item 3 (Some ''a cat'') (Some ''out/3.jpg'')) = Some ''out/3.jpg''
      \<and> path_suffix ''out/3.jpg'' \<noteq> ''.gif''
      \<and> truthy (origin (pin_item 3 (Some ''a cat'') (Some ''out/3.jpg'')))
      \<and> fails_on 3 (pin_item 3 (Some ''a cat'') (Some ''out/3.jpg'')) = Some OSError"
    by (simp add: pin_item_def sfx fails_on_def)
  have c1: "caption_meta never_fails_on never_fails_on
      ((pin_item 1 (Some ''clip'') (Some ''out/1.mp4''))\<lparr>video_stream := True\<rparr>) = []"
    using add_captions_to_meta_skips_and_isolates_failures
      [of "(pin_item 1 (Some ''clip'') (Some ''out/1.mp4''))\<lparr>video_stream := True\<rparr>"
        never_fails_on never_fails_on] v by blast
  have c2: "caption_meta wc never_fails_on (pin_item 2 (Some ''loop'') (Some ''out/2.gif'')) = []" for wc
    using add_captions_to_meta_skips_and_isolates_failures
      [of "pin_item 2 (Some ''loop'') (Some ''out/2.gif'')" wc never_fails_on "''out/2.gif''"] g
    by blast
  have c3: "caption_meta (fails_on 3) never_fails_on (pin_item 3 (Some ''a cat'') (Some ''out/3.jpg''))
      = [LoggedWarning ''out/3.jpg'' OSError]"
    using add_captions_to_meta_skips_and_isolates_failures
      [of "pin_item 3 (Some ''a cat'') (Some ''out/3.jpg'')" "fails_on 3" never_fails_on
        "''out/3.jpg''" OSError] f
    by blast
  have c4: "add_captions_to_meta (fails_on 3) never_fails_on
        ([pin_item 2 (Some ''loop'') (Some ''out/2.gif'')]
          @ pin_item 3 (Some ''a cat'') (Some ''out/3.jpg'')
          # [pin_item 4 (Some ''a dog'') (Some ''out/4.jpg'')])
      = add_captions_to_meta (fails_on 3) never_fails_on [pin_item 2 (Some ''loop'') (Some ''out/2.gif'')]
        @ caption_meta (fails_on 3) never_fails_on (pin_item 3 (Some ''a cat'') (Some ''out/3.jpg''))
        @ add_captions_to_meta (fails_on 3) never_fails_on [pin_item 4 (Some ''a dog'') (Some ''out/4.jpg'')]"
    using add_captions_to_meta_skips_and_isolates_failures
      [of "pin_item 3 (Some ''a cat'') (Some ''out/3.jpg'')" "fails_on 3" never_fails_on
        "''out/3.jpg''" OSError "[pin_item 2 (Some ''loop'') (Some ''out/2.gif'')]"
        "[pin_item 4 (Some ''a dog'') (Some ''out/4.jpg'')]"]
    by blast
  have last: "add_captions_to_meta (fails_on 3) never_fails_on [pin_item 4 (Some ''a dog'') (Some ''out/4.jpg'')]
      = [WroteComment ''out/4.jpg'' ''https://www.pinterest.com/pin/4/'',
         WroteSubject ''out/4.jpg'' ''a dog'']"
    by (simp add: caption_meta_def write_subject_def pin_item_def sfx fails_on_def
        never_fails_on_def n4)
  show ?thesis
    unfolding c4 c3 last using c1 c2 [of "fails_on 3"] c2 [of never_fails_on] by simp
qed

section \<open>Properties of the caption files\<close>








section \<open>Properties of the crawl loop\<close>


lemma upgraded_append: "upgraded (xs @ ys) = upgraded xs @ upgraded ys"
  by (simp add: upgraded_def)

lemma image_srcs_Cons:
  "image_srcs (el # images) = (case img_src el of Inr (Some s) \<Rightarrow> [s] | _ \<Rightarrow> []) @ image_srcs images"
  by (simp add: image_srcs_def)

lemma grows_refl: "grows f f []"
  by (simp add: grows_def upgraded_def)

lemma grows_trans:
  assumes "grows f f' xs" and "grows f' f'' ys"
  shows "grows f f'' (xs @ ys)"
proof -
  from assms(1) obtain n1 where 1: "snd f' = snd f @ n1" "subseq (map src n1) (upgraded xs)"
    "fst f |\<subseteq>| fst f'" "distinct (map src n1)"
    "list_all (\<lambda>m. src m |\<notin>| fst f \<and> src m |\<in>| fst f') n1"
    unfolding grows_def by blast
  from assms(2) obtain n2 where 2: "snd f'' = snd f' @ n2" "subseq (map src n2) (upgraded ys)"
    "fst f' |\<subseteq>| fst f''" "distinct (map src n2)"
    "list_all (\<lambda>m. src m |\<notin>| fst f' \<and> src m |\<in>| fst f'') n2"
    unfolding grows_def by blast
  have a: "snd f'' = snd f @ (n1 @ n2)" using 1(1) 2(1) by simp
  have b: "subseq (map src (n1 @ n2)) (upgraded (xs @ ys))"
    using 1(2) 2(2) by (simp add: upgraded_append list_emb_append_mono)
  have c: "fst f |\<subseteq>| fst f''" using 1(3) 2(3) by auto
  have d: "distinct (map src (n1 @ n2))"
    using 1(4,5) 2(4,5) by (auto simp: list_all_iff)
  have e: "list_all (\<lambda>m. src m |\<notin>| fst f \<and> src m |\<in>| fst f'') (n1 @ n2)"
    using 1(3,5) 2(3,5) by (auto simp: list_all_iff)
  from a b c d e show ?thesis unfolding grows_def by blast
qed

lemma grows_weaken_left: "grows f f' xs \<Longrightarrow> grows f f' (ys @ xs)"
  unfolding grows_def by (auto simp: upgraded_append intro: list_emb_append2)

lemma grows_weaken_right: "grows f f' xs \<Longrightarrow> grows f f' (xs @ ys)"
  unfolding grows_def by (auto simp: upgraded_append intro: list_emb_prefix)

lemma add_candidate_grows:
  assumes "add_candidate pid (py_replace s ''/236x/'' ''/originals/'') a href f = (r, f')"
    and "py_in ''/236x/'' s" and "py_replace s ''/236x/'' ''/originals/'' |\<notin>| fst f"
  shows "grows f f' [s]"
  using assms unfolding grows_def add_candidate_def upgraded_def
  by (cases "py_int pid") auto

lemma add_candidate_card:
  "add_candidate pid s a href f = (r, f') \<Longrightarrow> s |\<notin>| fst f \<Longrightarrow> fcard (fst f') = Suc (fcard (fst f))"
  unfolding add_candidate_def by (cases "py_int pid") (auto simp: fcard_finsert_disjoint)

lemma scan_images_step:
  assumes "scan_images num ea pid href (el # images) f = (r, f')"
  obtains (stop) e where "f' = f" "r = Some e" "img_alt el = Inl e \<or> img_src el = Inl e"
    | (skip) "scan_images num ea pid href images f = (r, f')"
    | (add_raise) s a e where "img_src el = Inr (Some s)" "py_in ''/236x/'' s"
        "py_replace s ''/236x/'' ''/originals/'' |\<notin>| fst f"
        "add_candidate pid (py_replace s ''/236x/'' ''/originals/'') a href f = (Some e, f')"
        "r = Some e"
    | (add_full) s a where "img_src el = Inr (Some s)" "py_in ''/236x/'' s"
        "py_replace s ''/236x/'' ''/originals/'' |\<notin>| fst f"
        "add_candidate pid (py_replace s ''/236x/'' ''/originals/'') a href f = (None, f')"
        "r = None" "num \<le> int (fcard (fst f'))"
    | (add_more) s a f1 where "img_src el = Inr (Some s)" "py_in ''/236x/'' s"
        "py_replace s ''/236x/'' ''/originals/'' |\<notin>| fst f"
        "add_candidate pid (py_replace s ''/236x/'' ''/originals/'') a href f = (None, f1)"
        "\<not> num \<le> int (fcard (fst f1))"
        "scan_images num ea pid href images f1 = (r, f')"
proof (cases "img_alt el")
  case (Inl e)
  with assms have "f' = f" "r = Some e" by simp_all
  then show ?thesis using stop [of e] Inl by simp
next
  case alt: (Inr a)
  show ?thesis
  proof (cases "ea \<and> blank a")
    case True
    with assms alt have "scan_images num ea pid href images f = (r, f')" by simp
    then show ?thesis using skip by blast
  next
    case nb: False
    show ?thesis
    proof (cases "img_src el")
      case (Inl e)
      with assms alt nb have "f' = f" "r = Some e" by simp_all
      then show ?thesis using stop [of e] Inl by simp
    next
      case sr: (Inr so)
      show ?thesis
      proof (cases so)
        case None
        with assms alt nb sr have "scan_images num ea pid href images f = (r, f')" by simp
        then show ?thesis using skip by blast
      next
        case (Some s)
        let ?s' = "py_replace s ''/236x/'' ''/originals/''"
        have one: "image_srcs [el] = [s]" using sr Some by (simp add: image_srcs_def)
        show ?thesis
        proof (cases "s \<noteq> [] \<and> py_in ''/236x/'' s \<and> ?s' |\<notin>| fst f")
          case False
          with assms alt nb sr Some
          have "scan_images num ea pid href images f = (r, f')" by simp
          then show ?thesis using skip by blast
        next
          case True
          obtain r1 f1 where ac: "add_candidate pid ?s' a href f = (r1, f1)"
            by (cases "add_candidate pid ?s' a href f") auto
          show ?thesis
          proof (cases r1)
            case (Some e)
            with assms alt nb sr \<open>so = Some s\<close> True ac have "r = Some e" "f' = f1" by simp_all
            with add_raise [of s a e] sr \<open>so = Some s\<close> True ac Some show ?thesis by simp
          next
            case None
            show ?thesis
            proof (cases "num \<le> int (fcard (fst f1))")
              case full: True
              with assms alt nb sr Some \<open>s \<noteq> [] \<and> py_in ''/236x/'' s \<and> ?s' |\<notin>| fst f\<close> ac None
              have "r = None" "f' = f1" by simp_all
              with add_full [of s a] sr Some \<open>s \<noteq> [] \<and> py_in ''/236x/'' s \<and> ?s' |\<notin>| fst f\<close>
                ac None full show ?thesis by simp
            next
              case more: False
              with assms alt nb sr Some \<open>s \<noteq> [] \<and> py_in ''/236x/'' s \<and> ?s' |\<notin>| fst f\<close> ac None
              have "scan_images num ea pid href images f1 = (r, f')" by simp
              with add_more [of s a f1] sr Some \<open>s \<noteq> [] \<and> py_in ''/236x/'' s \<and> ?s' |\<notin>| fst f\<close>
                ac None more show ?thesis by simp
            qed
          qed
        qed
      qed
    qed
  qed
qed

lemma scan_images_grows:
  "scan_images num ea pid href images f = (r, f') \<Longrightarrow> grows f f' (image_srcs images)"
proof (induction images arbitrary: f)
  case Nil
  then show ?case by (simp add: grows_refl image_srcs_def)
next
  case (Cons el images)
  have split: "image_srcs (el # images) = image_srcs [el] @ image_srcs images"
    by (simp add: image_srcs_def)
  from Cons.prems show ?case
  proof (cases rule: scan_images_step)
    case (stop e)
    then show ?thesis using grows_weaken_right [OF grows_refl, of f "image_srcs (el # images)"] by simp
  next
    case skip
    from Cons.IH [OF skip] show ?thesis unfolding split by (rule grows_weaken_left)
  next
    case (add_raise s a e)
    have "image_srcs [el] = [s]" using add_raise(1) by (simp add: image_srcs_def)
    with grows_weaken_right [OF add_candidate_grows [OF add_raise(4,2,3)], of "image_srcs images"]
    show ?thesis unfolding split by simp
  next
    case (add_full s a)
    have "image_srcs [el] = [s]" using add_full(1) by (simp add: image_srcs_def)
    with grows_weaken_right [OF add_candidate_grows [OF add_full(4,2,3)], of "image_srcs images"]
    show ?thesis unfolding split by simp
  next
    case (add_more s a f1)
    have "image_srcs [el] = [s]" using add_more(1) by (simp add: image_srcs_def)
    with grows_trans [OF add_candidate_grows [OF add_more(4,2,3)] Cons.IH [OF add_more(6)]]
    show ?thesis unfolding split by simp
  qed
qed


lemma scan_images_card:
  "scan_images num ea pid href images f = (r, f') \<Longrightarrow> int (fcard (fst f)) < num \<Longrightarrow>
   int (fcard (fst f')) \<le> num"
proof (induction images arbitrary: f)
  case Nil
  then show ?case by simp
next
  case (Cons el images)
  from Cons.prems(1) show ?case
  proof (cases rule: scan_images_step)
    case (stop e)
    with Cons.prems(2) show ?thesis by simp
  next
    case skip
    from Cons.IH [OF skip Cons.prems(2)] show ?thesis .
  next
    case (add_raise s a e)
    from add_candidate_card [OF add_raise(4,3)] Cons.prems(2) show ?thesis by simp
  next
    case (add_full s a)
    from add_candidate_card [OF add_full(4,3)] Cons.prems(2) show ?thesis by simp
  next
    case (add_more s a f1)
    from add_more(5) have "int (fcard (fst f1)) < num" by simp
    from Cons.IH [OF add_more(6) this] show ?thesis .
  qed
qed

lemma scan_divs_step:
  assumes "scan_divs num ea (d # divs) f = (r, f')"
  obtains (full) "num \<le> int (fcard (fst f))" "f' = f" "r = None"
    | (stop) e where "\<not> num \<le> int (fcard (fst f))" "f' = f" "r = Some e"
        "div_images d = Inl e \<or> div_href d = Inl e \<or> div_pin_id d = Inl e"
    | (skip) "\<not> num \<le> int (fcard (fst f))" "scan_divs num ea divs f = (r, f')"
    | (raise) images href pid e where "\<not> num \<le> int (fcard (fst f))" "div_images d = Inr images"
        "div_href d = Inr href" "div_pin_id d = Inr (Some pid)"
        "scan_images num ea pid href images f = (Some e, f')" "r = Some e"
    | (scan) images href pid f1 where "\<not> num \<le> int (fcard (fst f))" "div_images d = Inr images"
        "div_href d = Inr href" "div_pin_id d = Inr (Some pid)"
        "scan_images num ea pid href images f = (None, f1)"
        "scan_divs num ea divs f1 = (r, f')"
proof (cases "num \<le> int (fcard (fst f))")
  case True
  with assms have "f' = f" "r = None" by simp_all
  with True full show ?thesis by simp
next
  case room: False
  show ?thesis
  proof (cases "div_images d")
    case (Inl e)
    with assms room have "f' = f" "r = Some e" by simp_all
    with stop [of e] room Inl show ?thesis by simp
  next
    case im: (Inr images)
    show ?thesis
    proof (cases "div_href d")
      case (Inl e)
      with assms room im have "f' = f" "r = Some e" by simp_all
      with stop [of e] room Inl show ?thesis by simp
    next
      case hr: (Inr href)
      show ?thesis
      proof (cases "div_pin_id d")
        case (Inl e)
        with assms room im hr have "f' = f" "r = Some e" by simp_all
        with stop [of e] room Inl show ?thesis by simp
      next
        case pd: (Inr pid)
        show ?thesis
        proof (cases "truthy pid")
          case False
          with assms room im hr pd have "scan_divs num ea divs f = (r, f')" by simp
          with skip room show ?thesis by simp
        next
          case tp: True
          obtain r1 f1 where si: "scan_images num ea (the pid) href images f = (r1, f1)"
            by (cases "scan_images num ea (the pid) href images f") auto
          show ?thesis
          proof (cases r1)
            case (Some e)
            with assms room im hr pd tp si have "r = Some e" "f' = f1" by simp_all
            moreover from tp have "pid = Some (the pid)" by (cases pid) simp_all
            ultimately show ?thesis
              using raise [of images href "the pid" e] room im hr pd si Some by simp
          next
            case None
            with assms room im hr pd tp si have "scan_divs num ea divs f1 = (r, f')" by simp
            moreover from tp have "pid = Some (the pid)" by (cases pid) simp_all
            ultimately show ?thesis
              using scan [of images href "the pid" f1] room im hr pd si None by simp
          qed
        qed
      qed
    qed
  qed
qed

lemma div_srcs_Cons:
  "div_srcs (d # divs) = (case div_images d of Inr images \<Rightarrow> image_srcs images | Inl e \<Rightarrow> []) @ div_srcs divs"
  by (simp add: div_srcs_def)

lemma scan_divs_grows:
  "scan_divs num ea divs f = (r, f') \<Longrightarrow> grows f f' (div_srcs divs)"
proof (induction divs arbitrary: f)
  case Nil
  then show ?case by (simp add: grows_refl div_srcs_def)
next
  case (Cons d divs)
  have none: "grows f f (div_srcs (d # divs))"
    using grows_weaken_right [OF grows_refl, of f "div_srcs (d # divs)"] by simp
  from Cons.prems show ?case
  proof (cases rule: scan_divs_step)
    case full
    with none show ?thesis by simp
  next
    case (stop e)
    with none show ?thesis by simp
  next
    case skip
    from Cons.IH [OF skip(2)] show ?thesis
      unfolding div_srcs_Cons by (rule grows_weaken_left)
  next
    case (raise images href pid e)
    from grows_weaken_right [OF scan_images_grows [OF raise(5)], of "div_srcs divs"] raise(2)
    show ?thesis unfolding div_srcs_Cons by simp
  next
    case (scan images href pid f1)
    from grows_trans [OF scan_images_grows [OF scan(5)] Cons.IH [OF scan(6)]] scan(2)
    show ?thesis unfolding div_srcs_Cons by simp
  qed
qed

lemma scan_divs_card:
  "scan_divs num ea divs f = (r, f') \<Longrightarrow> int (fcard (fst f)) \<le> max num 0 \<Longrightarrow>
   int (fcard (fst f')) \<le> max num 0"
proof (induction divs arbitrary: f)
  case Nil
  then show ?case by simp
next
  case (Cons d divs)
  from Cons.prems(1) show ?case
  proof (cases rule: scan_divs_step)
    case full
    with Cons.prems(2) show ?thesis by simp
  next
    case (stop e)
    with Cons.prems(2) show ?thesis by simp
  next
    case skip
    from Cons.IH [OF skip(2) Cons.prems(2)] show ?thesis .
  next
    case (raise images href pid e)
    from scan_images_card [OF raise(5)] raise(1) show ?thesis by simp
  next
    case (scan images href pid f1)
    from scan_images_card [OF scan(5)] scan(1) have "int (fcard (fst f1)) \<le> max num 0" by simp
    from Cons.IH [OF scan(6) this] show ?thesis .
  qed
qed


lemma one_pass_cases:
  assumes "one_pass num ea v st = (en, st')"
  obtains (find_raises) e where "found_divs v = Inl e" "en = Raised e" "st' = st"
    | (scan_raises) divs e u d where "found_divs v = Inr divs"
        "scan_divs num ea divs (found_of st) = (Some e, (u, d))" "en = Raised e"
        "st' = st\<lparr>unique_results := u, imgs_data := d\<rparr>"
    | (stalled) divs u d where "found_divs v = Inr divs"
        "scan_divs num ea divs (found_of st) = (None, (u, d))"
        "10 \<le> (if fcard u - fcard (unique_results st) = 0 then no_new_scrolls st + 1 else 0)"
        "en = Break"
        "st' = st\<lparr>unique_results := u, imgs_data := d,
            no_new_scrolls := (if fcard u - fcard (unique_results st) = 0 then no_new_scrolls st + 1 else 0)\<rparr>"
    | (scroll_raises) divs u d e where "found_divs v = Inr divs"
        "scan_divs num ea divs (found_of st) = (None, (u, d))"
        "\<not> 10 \<le> (if fcard u - fcard (unique_results st) = 0 then no_new_scrolls st + 1 else 0)"
        "scroll_error v = Some e" "en = Raised e"
        "st' = st\<lparr>unique_results := u, imgs_data := d,
            no_new_scrolls := (if fcard u - fcard (unique_results st) = 0 then no_new_scrolls st + 1 else 0)\<rparr>"
    | (scrolled) divs u d where "found_divs v = Inr divs"
        "scan_divs num ea divs (found_of st) = (None, (u, d))"
        "\<not> 10 \<le> (if fcard u - fcard (unique_results st) = 0 then no_new_scrolls st + 1 else 0)"
        "scroll_error v = None" "en = Continue"
        "st' = st\<lparr>unique_results := u, imgs_data := d,
            no_new_scrolls := (if fcard u - fcard (unique_results st) = 0 then no_new_scrolls st + 1 else 0),
            scroll_count := scroll_count st + 1\<rparr>"
proof (cases "found_divs v")
  case (Inl e)
  with assms have "en = Raised e" "st' = st" by (simp_all add: one_pass_def)
  with find_raises Inl show ?thesis by simp
next
  case fd: (Inr divs)
  obtain r u d where sd: "scan_divs num ea divs (found_of st) = (r, (u, d))"
    by (cases "scan_divs num ea divs (found_of st)") auto
  show ?thesis
  proof (cases r)
    case (Some e)
    with assms fd sd have "en = Raised e" "st' = st\<lparr>unique_results := u, imgs_data := d\<rparr>"
      by (simp_all add: one_pass_def found_of_def)
    with scan_raises [of divs e u d] fd sd Some show ?thesis by simp
  next
    case None
    let ?k = "if fcard u - fcard (unique_results st) = 0 then no_new_scrolls st + 1 else 0"
    show ?thesis
    proof (cases "10 \<le> ?k")
      case True
      with assms fd sd None have "en = Break"
        "st' = st\<lparr>unique_results := u, imgs_data := d, no_new_scrolls := ?k\<rparr>"
        by (simp_all add: one_pass_def found_of_def Let_def)
      with stalled [of divs u d] fd sd None True show ?thesis by simp
    next
      case False
      show ?thesis
      proof (cases "scroll_error v")
        case (Some e)
        with assms fd sd None False have "en = Raised e"
          "st' = st\<lparr>unique_results := u, imgs_data := d, no_new_scrolls := ?k\<rparr>"
          by (simp_all add: one_pass_def found_of_def Let_def)
        with scroll_raises [of divs u d e] fd sd None False Some show ?thesis by simp
      next
        case nse: None
        with assms fd sd \<open>r = None\<close> False have "en = Continue"
          "st' = st\<lparr>unique_results := u, imgs_data := d, no_new_scrolls := ?k,
              scroll_count := scroll_count st + 1\<rparr>"
          by (simp_all add: one_pass_def found_of_def Let_def)
        with scrolled [of divs u d] fd sd \<open>r = None\<close> False nse show ?thesis by simp
      qed
    qed
  qed
qed

lemma one_pass_grows:
  assumes "one_pass num ea v st = (en, st')"
  shows "grows (found_of st) (found_of st') (view_srcs v)"
  using assms
proof (cases rule: one_pass_cases)
  case (find_raises e)
  then show ?thesis using grows_weaken_right [OF grows_refl, of "found_of st" "view_srcs v"] by simp
next
  case (scan_raises divs e u d)
  from scan_divs_grows [OF scan_raises(2)] scan_raises(1,4) show ?thesis
    by (simp add: view_srcs_def found_of_def)
next
  case (stalled divs u d)
  from scan_divs_grows [OF stalled(2)] stalled(1,5) show ?thesis
    by (simp add: view_srcs_def found_of_def)
next
  case (scroll_raises divs u d e)
  from scan_divs_grows [OF scroll_raises(2)] scroll_raises(1,6) show ?thesis
    by (simp add: view_srcs_def found_of_def)
next
  case (scrolled divs u d)
  from scan_divs_grows [OF scrolled(2)] scrolled(1,6) show ?thesis
    by (simp add: view_srcs_def found_of_def)
qed

lemma one_pass_card:
  assumes "one_pass num ea v st = (en, st')" and "int (fcard (unique_results st)) \<le> max num 0"
  shows "int (fcard (unique_results st')) \<le> max num 0"
  using assms(1)
proof (cases rule: one_pass_cases)
  case (find_raises e)
  with assms(2) show ?thesis by simp
next
  case (scan_raises divs e u d)
  from scan_divs_card [OF scan_raises(2)] assms(2) scan_raises(4) show ?thesis
    by (simp add: found_of_def)
next
  case (stalled divs u d)
  from scan_divs_card [OF stalled(2)] assms(2) stalled(5) show ?thesis
    by (simp add: found_of_def)
next
  case (scroll_raises divs u d e)
  from scan_divs_card [OF scroll_raises(2)] assms(2) scroll_raises(6) show ?thesis
    by (simp add: found_of_def)
next
  case (scrolled divs u d)
  from scan_divs_card [OF scrolled(2)] assms(2) scrolled(6) show ?thesis
    by (simp add: found_of_def)
qed

lemma scrape_loop_grows:
  "scrape_loop num ea views st = Some (Inr imgs) \<Longrightarrow>
   int (fcard (unique_results st)) \<le> max num 0 \<Longrightarrow>
   \<exists>u. grows (found_of st) (u, imgs) (concat (map view_srcs views)) \<and> int (fcard u) \<le> max num 0"
proof (induction views arbitrary: st)
  case Nil
  then have "imgs = imgs_data st" by (simp split: if_splits)
  with Nil.prems(2) grows_refl [of "found_of st"] show ?case
    by (auto simp: found_of_def)
next
  case (Cons v views)
  have here: "imgs = imgs_data s \<Longrightarrow> grows (found_of st) (found_of s) (view_srcs v) \<Longrightarrow>
      int (fcard (unique_results s)) \<le> max num 0 \<Longrightarrow> ?case" for s
    using grows_weaken_right [of "found_of st" "found_of s" "view_srcs v" "concat (map view_srcs views)"]
    by (auto simp: found_of_def)
  have later: "scrape_loop num ea views s = Some (Inr imgs) \<Longrightarrow>
      grows (found_of st) (found_of s) (view_srcs v) \<Longrightarrow>
      int (fcard (unique_results s)) \<le> max num 0 \<Longrightarrow> ?case" for s
  proof -
    assume a: "scrape_loop num ea views s = Some (Inr imgs)"
      and g: "grows (found_of st) (found_of s) (view_srcs v)"
      and c: "int (fcard (unique_results s)) \<le> max num 0"
    from Cons.IH [OF a c] obtain u where
      "grows (found_of s) (u, imgs) (concat (map view_srcs views))" "int (fcard u) \<le> max num 0"
      by blast
    with grows_trans [OF g this(1)] show ?case by auto
  qed
  show ?case
  proof (cases "scroll_count st < 800")
    case False
    with Cons.prems(1) have "imgs = imgs_data st" by simp
    with Cons.prems(2) grows_weaken_right [OF grows_refl, of "found_of st" "concat (map view_srcs (v # views))"]
    show ?thesis by (auto simp: found_of_def)
  next
    case True
    obtain en st' where op: "one_pass num ea v st = (en, st')"
      by (cases "one_pass num ea v st") auto
    note g = one_pass_grows [OF op]
    note c = one_pass_card [OF op Cons.prems(2)]
    show ?thesis
    proof (cases en)
      case Continue
      with Cons.prems(1) True op have "scrape_loop num ea views st' = Some (Inr imgs)" by simp
      from later [OF this g c] show ?thesis .
    next
      case Break
      with Cons.prems(1) True op have "imgs = imgs_data st'" by simp
      from here [OF this g c] show ?thesis .
    next
      case (Raised e)
      show ?thesis
      proof (cases "e = StaleElementReferenceException")
        case st: True
        with Cons.prems(1) \<open>scroll_count st < 800\<close> op Raised
        have "scrape_loop num ea views st' = Some (Inr imgs)" by simp
        from later [OF this g c] show ?thesis .
      next
        case False
        with Cons.prems(1) True op Raised have "imgs = imgs_data st'"
          by (simp split: if_splits)
        from here [OF this g c] show ?thesis .
      qed
    qed
  qed
qed




lemma keep_new_ids_result:
  "\<exists>new. keep_new_ids limit xs (ids, acc, n) = acc @ new \<and> subseq new xs
     \<and> distinct (map media_id new) \<and> list_all (\<lambda>m. media_id m |\<notin>| ids) new
     \<and> int (length new) \<le> max (limit - n) 1"
proof (induction xs arbitrary: ids acc n)
  case Nil
  then show ?case by simp
next
  case (Cons x xs)
  show ?case
  proof (cases "media_id x |\<notin>| ids")
    case False
    from Cons.IH [of ids acc n] obtain new where
      n: "keep_new_ids limit xs (ids, acc, n) = acc @ new" "subseq new xs"
         "distinct (map media_id new)" "list_all (\<lambda>m. media_id m |\<notin>| ids) new"
         "int (length new) \<le> max (limit - n) 1"
      by blast
    from False n(1) have "keep_new_ids limit (x # xs) (ids, acc, n) = acc @ new" by simp
    with n(2-5) show ?thesis by (intro exI [of _ new]) auto
  next
    case True
    show ?thesis
    proof (cases "limit \<le> n + 1")
      case full: True
      with True have "keep_new_ids limit (x # xs) (ids, acc, n) = acc @ [x]" by simp
      with True show ?thesis by (intro exI [of _ "[x]"]) auto
    next
      case False
      from Cons.IH [of "finsert (media_id x) ids" "acc @ [x]" "n + 1"] obtain new where
        n: "keep_new_ids limit xs (finsert (media_id x) ids, acc @ [x], n + 1) = (acc @ [x]) @ new"
           "subseq new xs" "distinct (map media_id new)"
           "list_all (\<lambda>m. media_id m |\<notin>| finsert (media_id x) ids) new"
           "int (length new) \<le> max (limit - (n + 1)) 1"
        by blast
      from True False n(1) have "keep_new_ids limit (x # xs) (ids, acc, n) = acc @ (x # new)"
        by simp
      moreover have "subseq (x # new) (x # xs)" using n(2) by simp
      moreover have "distinct (map media_id (x # new))"
        using n(3,4) by (auto simp: list_all_iff)
      moreover have "list_all (\<lambda>m. media_id m |\<notin>| ids) (x # new)"
        using True n(4) by (auto simp: list_all_iff)
      moreover have "int (length (x # new)) \<le> max (limit - n) 1"
        using n(5) False by auto
      ultimately show ?thesis by blast
    qed
  qed
qed

lemma scraped_candidates_props:
  "subseq (scraped_candidates limit xs) xs \<and> distinct (map media_id (scraped_candidates limit xs))
   \<and> int (length (scraped_candidates limit xs)) \<le> max limit 1"
  using keep_new_ids_result [of limit xs "{||}" "[]" 0] by (auto simp: scraped_candidates_def)

lemma patched_scrape_grows:
  assumes "patched_scrape num ea nav views = Some (Inr imgs)"
  shows "subseq (map src imgs) (upgraded (concat (map view_srcs views)))
    \<and> distinct (map src imgs) \<and> int (length imgs) \<le> max num 0"
proof (cases nav)
  case (Some e)
  with assms have "imgs = []" by (simp add: patched_scrape_def split: if_splits)
  then show ?thesis by simp
next
  case None
  with assms have run: "scrape_loop num ea views initial_state = Some (Inr imgs)"
    by (simp add: patched_scrape_def)
  have "int (fcard (unique_results initial_state)) \<le> max num 0"
    by (simp add: initial_state_def fcard_fempty)
  from scrape_loop_grows [OF run this] obtain u where
    g: "grows (found_of initial_state) (u, imgs) (concat (map view_srcs views))"
    and c: "int (fcard u) \<le> max num 0" by blast
  from g have s: "subseq (map src imgs) (upgraded (concat (map view_srcs views)))"
    and d: "distinct (map src imgs)" and m: "list_all (\<lambda>m. src m |\<in>| u) imgs"
    by (auto simp: grows_def found_of_def initial_state_def list_all_iff)
  have "length imgs = card (set (map src imgs))"
    using distinct_card [OF d] by simp
  also have "\<dots> \<le> card (fset u)"
    using m by (intro card_mono) (auto simp: list_all_iff)
  finally have "length imgs \<le> fcard u" by (simp add: fcard.rep_eq)
  with c s d show ?thesis by simp
qed



lemma subseq_distinct: "subseq xs ys \<Longrightarrow> distinct ys \<Longrightarrow> distinct xs"
proof (induction rule: list_emb.induct)
  case (list_emb_Cons2 x y xs ys)
  then have "x \<notin> set xs" using list_emb_set [of "(=)" xs ys x] by auto
  with list_emb_Cons2 show ?case by simp
qed simp_all

lemma distinct_map_filter_le_1:
  "distinct (map f xs) \<Longrightarrow> length (filter (\<lambda>m. f m = t) xs) \<le> 1"
proof (induction xs)
  case (Cons x xs)
  have "filter (\<lambda>m. f m = t) xs = []" if "f x = t"
  proof -
    from Cons.prems have "f x \<notin> f ` set xs" by simp
    with that have "\<forall>m \<in> set xs. f m \<noteq> t" by (metis image_eqI)
    then show ?thesis by (simp add: filter_empty_conv)
  qed
  moreover from Cons have "length (filter (\<lambda>m. f m = t) xs) \<le> 1" by simp
  ultimately show ?case by simp
qed simp

text \<open>
  C2. When the crawl loop returns a list \<open>imgs\<close> for a target count \<open>num\<close> and
  \<open>scrape_images\<close> then keeps the first item of every id: the kept items are at most \<open>num\<close>;
  no two share an id; they stand in the order of \<open>imgs\<close>, whose URLs stand in the order in
  which the pages showed them; and no two carry the same URL, so that of a thumbnail URL
  and its full-resolution form at most one candidate is left.
\<close>

theorem browser_candidates_bounded_unique_in_order:
  assumes "patched_scrape num ensure_alt navigation views = Some (Inr imgs)" and "0 \<le> num"
  shows "int (length (scraped_candidates num imgs)) \<le> num
    \<and> distinct (map media_id (scraped_candidates num imgs))
    \<and> subseq (scraped_candidates num imgs) imgs
    \<and> subseq (map src imgs) (upgraded (concat (map view_srcs views)))
    \<and> distinct (map src (scraped_candidates num imgs))
    \<and> length (filter (\<lambda>m. src m = py_replace t ''/236x/'' ''/originals/'')
          (scraped_candidates num imgs)) \<le> 1"
proof -
  let ?out = "scraped_candidates num imgs"
  from patched_scrape_grows [OF assms(1)] assms(2)
  have s: "subseq (map src imgs) (upgraded (concat (map view_srcs views)))"
    and d: "distinct (map src imgs)" and l: "int (length imgs) \<le> num" by simp_all
  from scraped_candidates_props [of num imgs]
  have ss: "subseq ?out imgs" and di: "distinct (map media_id ?out)" by simp_all
  from list_emb_length [OF ss] l have a: "int (length ?out) \<le> num" by simp
  from subseq_distinct [OF subseq_map [OF ss, of src] d] have ds: "distinct (map src ?out)" .
  from distinct_map_filter_le_1 [OF ds]
  have f: "length (filter (\<lambda>m. src m = py_replace t ''/236x/'' ''/originals/'') ?out) \<le> 1" .
  from a di ss s ds f show ?thesis by blast
qed

lemma two_forms_run:
  "patched_scrape 5 False None (two_forms_page # replicate 10 (page []))
   = Some (Inr [candidate 1 ''https://i.pinimg.com/originals/a.jpg'',
                candidate 1 ''https://i.pinimg.com/originals/b.jpg''])"
  by code_simp

theorem browser_candidates_bounded_unique_in_order_witness:
  "patched_scrape 5 False None (two_forms_page # replicate 10 (page []))
     = Some (Inr [candidate 1 ''https://i.pinimg.com/originals/a.jpg'',
                  candidate 1 ''https://i.pinimg.com/originals/b.jpg''])
   \<and> scraped_candidates 5 [candidate 1 ''https://i.pinimg.com/originals/a.jpg'',
                            candidate 1 ''https://i.pinimg.com/originals/b.jpg'']
     = [candidate 1 ''https://i.pinimg.com/originals/a.jpg'']
   \<and> int (length (scraped_candidates 5 [candidate 1 ''https://i.pinimg.com/originals/a.jpg'',
                            candidate 1 ''https://i.pinimg.com/originals/b.jpg''])) \<le> 5
   \<and> distinct (map media_id (scraped_candidates 5 [candidate 1 ''https://i.pinimg.com/originals/a.jpg'',
                            candidate 1 ''https://i.pinimg.com/originals/b.jpg'']))"
proof -
  have le: "(0::int) \<le> 5" by simp
  have out: "scraped_candidates 5 [candidate 1 ''https://i.pinimg.com/originals/a.jpg'',
                            candidate 1 ''https://i.pinimg.com/originals/b.jpg'']
     = [candidate 1 ''https://i.pinimg.com/originals/a.jpg'']"
    by (simp add: scraped_candidates_def candidate_def)
  from browser_candidates_bounded_unique_in_order [OF two_forms_run le] two_forms_run out
  show ?thesis by simp
qed

text \<open>
  C10. Every candidate the crawl loop returns carries the URL of an image that was shown
  with \<open>/236x/\<close> in its \<open>src\<close>, with \<open>/236x/\<close> replaced by \<open>/originals/\<close>; when no image shown has
  \<open>/236x/\<close> in its \<open>src\<close>, nothing is returned, whatever the ids.
\<close>

theorem candidates_come_from_thumbnails_only:
  assumes "patched_scrape num ensure_alt navigation views = Some (Inr imgs)"
  shows "(\<forall>m \<in> set imgs. \<exists>s \<in> set (concat (map view_srcs views)).
            py_in ''/236x/'' s \<and> src m = py_replace s ''/236x/'' ''/originals/'')
    \<and> ((\<forall>s \<in> set (concat (map view_srcs views)). \<not> py_in ''/236x/'' s) \<longrightarrow> imgs = [])"
proof -
  from patched_scrape_grows [OF assms]
  have s: "subseq (map src imgs) (upgraded (concat (map view_srcs views)))" by simp
  have a: "\<exists>s \<in> set (concat (map view_srcs views)).
      py_in ''/236x/'' s \<and> src m = py_replace s ''/236x/'' ''/originals/''" if "m \<in> set imgs" for m
  proof -
    from that have "src m \<in> set (map src imgs)" by simp
    with s have "src m \<in> set (upgraded (concat (map view_srcs views)))"
      using list_emb_set [of "(=)" "map src imgs" _ "src m"] by metis
    then show ?thesis unfolding upgraded_def by auto
  qed
  have b: "imgs = []" if "\<forall>s \<in> set (concat (map view_srcs views)). \<not> py_in ''/236x/'' s"
  proof (cases imgs)
    case (Cons m ms)
    with a [of m] that show ?thesis by auto
  qed simp
  from a b show ?thesis by blast
qed


lemma mixed_run:
  "patched_scrape 5 False None (mixed_page # replicate 10 (page []))
   = Some (Inr [candidate 8 ''https://i.pinimg.com/originals/y.jpg''])"
  by code_simp

theorem candidates_come_from_thumbnails_only_witness:
  "patched_scrape 5 False None (mixed_page # replicate 10 (page []))
     = Some (Inr [candidate 8 ''https://i.pinimg.com/originals/y.jpg''])
   \<and> (\<exists>s \<in> set (concat (map view_srcs (mixed_page # replicate 10 (page [])))).
          py_in ''/236x/'' s
          \<and> src (candidate 8 ''https://i.pinimg.com/originals/y.jpg'')
              = py_replace s ''/236x/'' ''/originals/'')"
proof -
  from candidates_come_from_thumbnails_only [OF mixed_run]
  have "\<forall>m \<in> set [candidate 8 ''https://i.pinimg.com/originals/y.jpg''].
      \<exists>s \<in> set (concat (map view_srcs (mixed_page # replicate 10 (page [])))).
        py_in ''/236x/'' s \<and> src m = py_replace s ''/236x/'' ''/originals/''"
    by blast
  then show ?thesis using mixed_run by simp
qed





























lemma loop_never_raises_oserror:
  "scrape_loop num ea views st = Some (Inl e) \<Longrightarrow> \<not> is_OSError e"
proof (induction views arbitrary: st)
  case Nil
  then show ?case by (simp split: if_splits)
next
  case (Cons v views)
  show ?case
  proof (cases "scroll_count st < 800")
    case False
    with Cons.prems show ?thesis by simp
  next
    case True
    obtain en st' where op: "one_pass num ea v st = (en, st')"
      by (cases "one_pass num ea v st") auto
    show ?thesis
    proof (cases en)
      case Continue
      with Cons.prems True op have "scrape_loop num ea views st' = Some (Inl e)" by simp
      from Cons.IH [OF this] show ?thesis .
    next
      case Break
      with Cons.prems True op show ?thesis by simp
    next
      case (Raised x)
      show ?thesis
      proof (cases "x = StaleElementReferenceException")
        case st: True
        with Cons.prems \<open>scroll_count st < 800\<close> op Raised
        have "scrape_loop num ea views st' = Some (Inl e)" by simp
        from Cons.IH [OF this] show ?thesis .
      next
        case False
        with Cons.prems True op Raised show ?thesis by (auto split: if_splits)
      qed
    qed
  qed
qed

lemma one_pass_keeps_collected:
  assumes "one_pass num ea v st = (en, st')"
  shows "prefix (imgs_data st) (imgs_data st')"
  using one_pass_grows [OF assms] by (auto simp: grows_def found_of_def)

lemma socket_error_in_pass:
  assumes "scroll_count st < 800" and "is_OSError e"
  shows "found_divs v = Inl e \<longrightarrow>
           scrape_loop num ensure_alt (v # views) st = Some (Inr (imgs_data st))"
    and "found_divs v = Inr divs
         \<and> scan_divs num ensure_alt divs (unique_results st, imgs_data st) = (Some e, (u, d)) \<longrightarrow>
           scrape_loop num ensure_alt (v # views) st = Some (Inr d) \<and> prefix (imgs_data st) d"
    and "found_divs v = Inr divs
         \<and> scan_divs num ensure_alt divs (unique_results st, imgs_data st) = (None, (u, d))
         \<and> (fcard (unique_results st) < fcard u \<or> no_new_scrolls st < 9)
         \<and> scroll_error v = Some e \<longrightarrow>
           scrape_loop num ensure_alt (v # views) st = Some (Inr d) \<and> prefix (imgs_data st) d"
proof -
  from assms(2) have ns: "e \<noteq> StaleElementReferenceException" by auto
  show "found_divs v = Inl e \<longrightarrow>
           scrape_loop num ensure_alt (v # views) st = Some (Inr (imgs_data st))"
    using assms ns by (simp add: one_pass_def)
  show "found_divs v = Inr divs
         \<and> scan_divs num ensure_alt divs (unique_results st, imgs_data st) = (Some e, (u, d)) \<longrightarrow>
           scrape_loop num ensure_alt (v # views) st = Some (Inr d) \<and> prefix (imgs_data st) d"
  proof
    assume h: "found_divs v = Inr divs
         \<and> scan_divs num ensure_alt divs (unique_results st, imgs_data st) = (Some e, (u, d))"
    then have op: "one_pass num ensure_alt v st
        = (Raised e, st\<lparr>unique_results := u, imgs_data := d\<rparr>)"
      by (simp add: one_pass_def)
    from one_pass_keeps_collected [OF op] have "prefix (imgs_data st) d" by simp
    with op assms ns
    show "scrape_loop num ensure_alt (v # views) st = Some (Inr d) \<and> prefix (imgs_data st) d"
      by simp
  qed
  show "found_divs v = Inr divs
         \<and> scan_divs num ensure_alt divs (unique_results st, imgs_data st) = (None, (u, d))
         \<and> (fcard (unique_results st) < fcard u \<or> no_new_scrolls st < 9)
         \<and> scroll_error v = Some e \<longrightarrow>
           scrape_loop num ensure_alt (v # views) st = Some (Inr d) \<and> prefix (imgs_data st) d"
  proof
    assume h: "found_divs v = Inr divs
         \<and> scan_divs num ensure_alt divs (unique_results st, imgs_data st) = (None, (u, d))
         \<and> (fcard (unique_results st) < fcard u \<or> no_new_scrolls st < 9)
         \<and> scroll_error v = Some e"
    then have "\<exists>st'. one_pass num ensure_alt v st = (Raised e, st') \<and> imgs_data st' = d"
      by (auto simp: one_pass_def Let_def)
    then obtain st' where op: "one_pass num ensure_alt v st = (Raised e, st')"
      and d: "imgs_data st' = d"
      by blast
    from one_pass_keeps_collected [OF op] d have "prefix (imgs_data st) d" by simp
    with op d assms ns
    show "scrape_loop num ensure_alt (v # views) st = Some (Inr d) \<and> prefix (imgs_data st) d"
      by simp
  qed
qed

lemma scan_raise_points:
  "\<not> num \<le> int (fcard (fst f)) \<and> div_images dv = Inl e \<longrightarrow>
        scan_divs num ensure_alt (dv # divs) f = (Some e, f)"
  "\<not> num \<le> int (fcard (fst f)) \<and> div_images dv = Inr images \<and> div_href dv = Inl e \<longrightarrow>
        scan_divs num ensure_alt (dv # divs) f = (Some e, f)"
  "\<not> num \<le> int (fcard (fst f)) \<and> div_images dv = Inr images \<and> div_href dv = Inr href
        \<and> div_pin_id dv = Inl e \<longrightarrow>
        scan_divs num ensure_alt (dv # divs) f = (Some e, f)"
  "\<not> num \<le> int (fcard (fst f)) \<and> div_images dv = Inr images \<and> div_href dv = Inr href
        \<and> div_pin_id dv = Inr pid \<and> truthy pid
        \<and> scan_images num ensure_alt (the pid) href images f = (Some e, f') \<longrightarrow>
        scan_divs num ensure_alt (dv # divs) f = (Some e, f')"
  "img_alt el = Inl e \<longrightarrow> scan_images num ensure_alt p href (el # images) f = (Some e, f)"
  "img_alt el = Inr a \<and> \<not> (ensure_alt \<and> blank a) \<and> img_src el = Inl e \<longrightarrow>
        scan_images num ensure_alt p href (el # images) f = (Some e, f)"
  by auto

text \<open>
  C7, as the code has it. A socket error (\<open>socket.error\<close>, \<open>socket.timeout\<close>: any \<open>OSError\<close>)
  raised by the navigation, by a scan or by the scroll ends the loop, and the function
  returns what was collected up to the error, which includes all that was collected before
  the pass; whatever is raised while looking for or clicking the load-more button is
  swallowed and changes nothing; and no socket error ever leaves the function.

  In terms of what the browser does in a pass that starts with \<open>scroll_count < 800\<close>: when
  \<open>find_elements\<close> raises the socket error, the loop returns \<open>imgs_data\<close> as it was; when the
  scan raises it, the loop returns what the scan had appended up to there; when the scan
  ends, the stall counter stays below 10 and the scroll raises it, the loop returns what
  the scan has appended. The scan raises what the reading of a container's \<open>img\<close> elements,
  of its link or of its pin id raises, and what the reading of an image's \<open>alt\<close> or \<open>src\<close>
  raises, leaving what it had found as it was.
\<close>

theorem socket_error_returns_collected:
  "(navigation = Some e \<and> is_OSError e \<longrightarrow>
      patched_scrape num ensure_alt navigation views = Some (Inr []))
   \<and> (scroll_count st < 800 \<and> one_pass num ensure_alt v st = (Raised e, st') \<and> is_OSError e \<longrightarrow>
        scrape_loop num ensure_alt (v # views) st = Some (Inr (imgs_data st'))
        \<and> prefix (imgs_data st) (imgs_data st'))
   \<and> (found_divs v = Inl e \<longrightarrow> one_pass num ensure_alt v st = (Raised e, st))
   \<and> (patched_scrape num ensure_alt navigation views = Some (Inl e) \<longrightarrow> \<not> is_OSError e)
   \<and> one_pass num ensure_alt (v\<lparr>load_more_error := x\<rparr>) st = one_pass num ensure_alt v st
   \<and> (scroll_count st < 800 \<and> is_OSError e \<and> found_divs v = Inl e \<longrightarrow>
        scrape_loop num ensure_alt (v # views) st = Some (Inr (imgs_data st)))
   \<and> (scroll_count st < 800 \<and> is_OSError e \<and> found_divs v = Inr divs
        \<and> scan_divs num ensure_alt divs (unique_results st, imgs_data st) = (Some e, (u, d)) \<longrightarrow>
        scrape_loop num ensure_alt (v # views) st = Some (Inr d) \<and> prefix (imgs_data st) d)
   \<and> (scroll_count st < 800 \<and> is_OSError e \<and> found_divs v = Inr divs
        \<and> scan_divs num ensure_alt divs (unique_results st, imgs_data st) = (None, (u, d))
        \<and> (fcard (unique_results st) < fcard u \<or> no_new_scrolls st < 9)
        \<and> scroll_error v = Some e \<longrightarrow>
        scrape_loop num ensure_alt (v # views) st = Some (Inr d) \<and> prefix (imgs_data st) d)
   \<and> (\<not> num \<le> int (fcard (fst f)) \<and> div_images dv = Inl e \<longrightarrow>
        scan_divs num ensure_alt (dv # dvs) f = (Some e, f))
   \<and> (\<not> num \<le> int (fcard (fst f)) \<and> div_images dv = Inr images \<and> div_href dv = Inl e \<longrightarrow>
        scan_divs num ensure_alt (dv # dvs) f = (Some e, f))
   \<and> (\<not> num \<le> int (fcard (fst f)) \<and> div_images dv = Inr images \<and> div_href dv = Inr href
        \<and> div_pin_id dv = Inl e \<longrightarrow>
        scan_divs num ensure_alt (dv # dvs) f = (Some e, f))
   \<and> (\<not> num \<le> int (fcard (fst f)) \<and> div_images dv = Inr images \<and> div_href dv = Inr href
        \<and> div_pin_id dv = Inr pid \<and> truthy pid
        \<and> scan_images num ensure_alt (the pid) href images f = (Some e, f') \<longrightarrow>
        scan_divs num ensure_alt (dv # dvs) f = (Some e, f'))
   \<and> (img_alt el = Inl e \<longrightarrow> scan_images num ensure_alt p href (el # images) f = (Some e, f))
   \<and> (img_alt el = Inr a \<and> \<not> (ensure_alt \<and> blank a) \<and> img_src el = Inl e \<longrightarrow>
        scan_images num ensure_alt p href (el # images) f = (Some e, f))"
proof -
  have a: "navigation = Some e \<and> is_OSError e \<longrightarrow>
      patched_scrape num ensure_alt navigation views = Some (Inr [])"
    by (simp add: patched_scrape_def)
  have b: "scroll_count st < 800 \<and> one_pass num ensure_alt v st = (Raised e, st') \<and> is_OSError e \<longrightarrow>
        scrape_loop num ensure_alt (v # views) st = Some (Inr (imgs_data st'))
        \<and> prefix (imgs_data st) (imgs_data st')"
  proof
    assume h: "scroll_count st < 800 \<and> one_pass num ensure_alt v st = (Raised e, st') \<and> is_OSError e"
    then have op: "one_pass num ensure_alt v st = (Raised e, st')" by simp
    from h have "e \<noteq> StaleElementReferenceException" by auto
    with h one_pass_keeps_collected [OF op]
    show "scrape_loop num ensure_alt (v # views) st = Some (Inr (imgs_data st'))
        \<and> prefix (imgs_data st) (imgs_data st')" by simp
  qed
  have c: "found_divs v = Inl e \<longrightarrow> one_pass num ensure_alt v st = (Raised e, st)"
    by (simp add: one_pass_def)
  have d: "patched_scrape num ensure_alt navigation views = Some (Inl e) \<longrightarrow> \<not> is_OSError e"
    using loop_never_raises_oserror [of num ensure_alt views initial_state e]
    by (auto simp: patched_scrape_def split: option.splits if_splits)
  have g: "one_pass num ensure_alt (v\<lparr>load_more_error := x\<rparr>) st = one_pass num ensure_alt v st"
    by (simp add: one_pass_def Let_def split: sum.splits prod.splits option.splits)
  have h1: "scroll_count st < 800 \<and> is_OSError e \<and> found_divs v = Inl e \<longrightarrow>
        scrape_loop num ensure_alt (v # views) st = Some (Inr (imgs_data st))"
    using socket_error_in_pass(1) [of st e v num ensure_alt views] by blast
  have h2: "scroll_count st < 800 \<and> is_OSError e \<and> found_divs v = Inr divs
        \<and> scan_divs num ensure_alt divs (unique_results st, imgs_data st) = (Some e, (u, d)) \<longrightarrow>
        scrape_loop num ensure_alt (v # views) st = Some (Inr d) \<and> prefix (imgs_data st) d"
    using socket_error_in_pass(2) [of st e v divs num ensure_alt u d views] by blast
  have h3: "scroll_count st < 800 \<and> is_OSError e \<and> found_divs v = Inr divs
        \<and> scan_divs num ensure_alt divs (unique_results st, imgs_data st) = (None, (u, d))
        \<and> (fcard (unique_results st) < fcard u \<or> no_new_scrolls st < 9)
        \<and> scroll_error v = Some e \<longrightarrow>
        scrape_loop num ensure_alt (v # views) st = Some (Inr d) \<and> prefix (imgs_data st) d"
    using socket_error_in_pass(3) [of st e v divs num ensure_alt u d views] by blast
  show ?thesis
    by (intro conjI a b c d g h1 h2 h3 scan_raise_points)
qed

theorem load_more_socket_error_is_swallowed:
  "patched_scrape 5 False None (load_more_fails # mixed_page # replicate 10 (page []))
   = Some (Inr [candidate 8 ''https://i.pinimg.com/originals/y.jpg''])"
  by code_simp


theorem socket_error_returns_collected_witness:
  "one_pass 5 False socket_page after_two_forms = (Raised TimeoutError, after_two_forms)
   \<and> scrape_loop 5 False (socket_page # replicate 3 mixed_page) after_two_forms
       = Some (Inr (imgs_data after_two_forms))
   \<and> patched_scrape 5 False (Some OSError) [mixed_page] = Some (Inr [])
   \<and> scrape_loop 5 False (scroll_fails # replicate 3 mixed_page) initial_state
       = Some (Inr [candidate 8 ''https://i.pinimg.com/originals/y.jpg''])
   \<and> scrape_loop 5 False (scan_fails # replicate 3 mixed_page) initial_state
       = Some (Inr [candidate 8 ''https://i.pinimg.com/originals/y.jpg''])
   \<and> scan_divs 5 False [broken_image] ({||}, []) = (Some TimeoutError, ({||}, []))"
proof -
  have fd: "found_divs socket_page = Inl TimeoutError" by (simp add: socket_page_def)
  have sc: "scroll_count after_two_forms < 800" by (simp add: after_two_forms_def)
  have os: "is_OSError TimeoutError" by simp
  have "found_divs socket_page = Inl TimeoutError \<longrightarrow>
      one_pass 5 False socket_page after_two_forms = (Raised TimeoutError, after_two_forms)"
    using socket_error_returns_collected
      [where v = socket_page and e = TimeoutError and num = 5 and ensure_alt = False
         and st = after_two_forms,
         THEN conjunct2, THEN conjunct2, THEN conjunct1]
    by this
  with fd
  have op: "one_pass 5 False socket_page after_two_forms = (Raised TimeoutError, after_two_forms)"
    by (rule rev_mp)
  have "scroll_count after_two_forms < 800
      \<and> one_pass 5 False socket_page after_two_forms = (Raised TimeoutError, after_two_forms)
      \<and> is_OSError TimeoutError \<longrightarrow>
      scrape_loop 5 False (socket_page # replicate 3 mixed_page) after_two_forms
        = Some (Inr (imgs_data after_two_forms))
      \<and> prefix (imgs_data after_two_forms) (imgs_data after_two_forms)"
    using socket_error_returns_collected
      [where v = socket_page and e = TimeoutError and num = 5 and ensure_alt = False
         and st = after_two_forms and st' = after_two_forms and views = "replicate 3 mixed_page",
         THEN conjunct2, THEN conjunct1]
    by this
  with sc op os
  have lp: "scrape_loop 5 False (socket_page # replicate 3 mixed_page) after_two_forms
       = Some (Inr (imgs_data after_two_forms))"
    by blast
  have "Some OSError = Some OSError \<and> is_OSError OSError \<longrightarrow>
      patched_scrape 5 False (Some OSError) [mixed_page] = Some (Inr [])"
    using socket_error_returns_collected
      [where navigation = "Some OSError" and e = OSError and num = 5 and ensure_alt = False
         and views = "[mixed_page]",
         THEN conjunct1]
    by this
  then have nv: "patched_scrape 5 False (Some OSError) [mixed_page] = Some (Inr [])"
    by simp
  have si: "scroll_count initial_state < 800" by (simp add: initial_state_def)
  have f1: "found_divs scroll_fails = Inr [pin_with_image ''8'' ''https://i.pinimg.com/236x/y.jpg'']"
    and e1: "scroll_error scroll_fails = Some TimeoutError"
    by (simp_all add: scroll_fails_def)
  have s1: "scan_divs 5 False [pin_with_image ''8'' ''https://i.pinimg.com/236x/y.jpg'']
        (unique_results initial_state, imgs_data initial_state)
      = (None, ({|''https://i.pinimg.com/originals/y.jpg''|},
                [candidate 8 ''https://i.pinimg.com/originals/y.jpg'']))"
    by code_simp
  have n1: "fcard (unique_results initial_state) < fcard {|''https://i.pinimg.com/originals/y.jpg''|}
      \<or> no_new_scrolls initial_state < 9"
    by (simp add: initial_state_def)
  have "scroll_count initial_state < 800 \<and> is_OSError TimeoutError
      \<and> found_divs scroll_fails = Inr [pin_with_image ''8'' ''https://i.pinimg.com/236x/y.jpg'']
      \<and> scan_divs 5 False [pin_with_image ''8'' ''https://i.pinimg.com/236x/y.jpg'']
            (unique_results initial_state, imgs_data initial_state)
          = (None, ({|''https://i.pinimg.com/originals/y.jpg''|},
                    [candidate 8 ''https://i.pinimg.com/originals/y.jpg'']))
      \<and> (fcard (unique_results initial_state) < fcard {|''https://i.pinimg.com/originals/y.jpg''|}
          \<or> no_new_scrolls initial_state < 9)
      \<and> scroll_error scroll_fails = Some TimeoutError \<longrightarrow>
      scrape_loop 5 False (scroll_fails # replicate 3 mixed_page) initial_state
        = Some (Inr [candidate 8 ''https://i.pinimg.com/originals/y.jpg''])
      \<and> prefix (imgs_data initial_state) [candidate 8 ''https://i.pinimg.com/originals/y.jpg'']"
    using socket_error_returns_collected
      [where v = scroll_fails and e = TimeoutError and num = 5 and ensure_alt = False
         and st = initial_state and views = "replicate 3 mixed_page"
         and divs = "[pin_with_image ''8'' ''https://i.pinimg.com/236x/y.jpg'']"
         and u = "{|''https://i.pinimg.com/originals/y.jpg''|}"
         and d = "[candidate 8 ''https://i.pinimg.com/originals/y.jpg'']",
         THEN conjunct2, THEN conjunct2, THEN conjunct2, THEN conjunct2, THEN conjunct2, THEN conjunct2, THEN conjunct2, THEN conjunct1]
    by this
  with si os f1 s1 n1 e1
  have sl: "scrape_loop 5 False (scroll_fails # replicate 3 mixed_page) initial_state
       = Some (Inr [candidate 8 ''https://i.pinimg.com/originals/y.jpg''])"
    by blast
  have f2: "found_divs scan_fails
      = Inr [pin_with_image ''8'' ''https://i.pinimg.com/236x/y.jpg'', broken_image]"
    by (simp add: scan_fails_def page_def)
  have s2: "scan_divs 5 False [pin_with_image ''8'' ''https://i.pinimg.com/236x/y.jpg'', broken_image]
        (unique_results initial_state, imgs_data initial_state)
      = (Some TimeoutError, ({|''https://i.pinimg.com/originals/y.jpg''|},
                [candidate 8 ''https://i.pinimg.com/originals/y.jpg'']))"
    by code_simp
  have "scroll_count initial_state < 800 \<and> is_OSError TimeoutError
      \<and> found_divs scan_fails
          = Inr [pin_with_image ''8'' ''https://i.pinimg.com/236x/y.jpg'', broken_image]
      \<and> scan_divs 5 False [pin_with_image ''8'' ''https://i.pinimg.com/236x/y.jpg'', broken_image]
            (unique_results initial_state, imgs_data initial_state)
          = (Some TimeoutError, ({|''https://i.pinimg.com/originals/y.jpg''|},
                    [candidate 8 ''https://i.pinimg.com/originals/y.jpg''])) \<longrightarrow>
      scrape_loop 5 False (scan_fails # replicate 3 mixed_page) initial_state
        = Some (Inr [candidate 8 ''https://i.pinimg.com/originals/y.jpg''])
      \<and> prefix (imgs_data initial_state) [candidate 8 ''https://i.pinimg.com/originals/y.jpg'']"
    using socket_error_returns_collected
      [where v = scan_fails and e = TimeoutError and num = 5 and ensure_alt = False
         and st = initial_state and views = "replicate 3 mixed_page"
         and divs = "[pin_with_image ''8'' ''https://i.pinimg.com/236x/y.jpg'', broken_image]"
         and u = "{|''https://i.pinimg.com/originals/y.jpg''|}"
         and d = "[candidate 8 ''https://i.pinimg.com/originals/y.jpg'']",
         THEN conjunct2, THEN conjunct2, THEN conjunct2, THEN conjunct2, THEN conjunct2, THEN conjunct2, THEN conjunct1]
    by this
  with si os f2 s2
  have sn: "scrape_loop 5 False (scan_fails # replicate 3 mixed_page) initial_state
       = Some (Inr [candidate 8 ''https://i.pinimg.com/originals/y.jpg''])"
    by blast
  have room: "\<not> (5 :: int) \<le> int (fcard (fst (({||}, []) :: found)))"
    by (simp add: fcard_fempty)
  have bi: "div_images broken_image
        = Inr [\<lparr>img_alt = Inr (Some ''a pin''), img_src = Inl TimeoutError\<rparr>]"
    and bh: "div_href broken_image = Inr None"
    and bp: "div_pin_id broken_image = Inr (Some ''9'')"
    and tp: "truthy (Some ''9'')"
    by (simp_all add: broken_image_def)
  have al: "img_alt \<lparr>img_alt = Inr (Some ''a pin''), img_src = Inl TimeoutError\<rparr> = Inr (Some ''a pin'')"
    and sr: "img_src \<lparr>img_alt = Inr (Some ''a pin''), img_src = Inl TimeoutError\<rparr> = Inl TimeoutError"
    and nb: "\<not> (False \<and> blank (Some ''a pin''))"
    by simp_all
  have "img_alt \<lparr>img_alt = Inr (Some ''a pin''), img_src = Inl TimeoutError\<rparr> = Inr (Some ''a pin'')
      \<and> \<not> (False \<and> blank (Some ''a pin''))
      \<and> img_src \<lparr>img_alt = Inr (Some ''a pin''), img_src = Inl TimeoutError\<rparr> = Inl TimeoutError \<longrightarrow>
      scan_images 5 False (the (Some ''9'')) None
        [\<lparr>img_alt = Inr (Some ''a pin''), img_src = Inl TimeoutError\<rparr>] ({||}, [])
      = (Some TimeoutError, ({||}, []))"
    using socket_error_returns_collected
      [where e = TimeoutError and num = 5 and ensure_alt = False
         and el = "\<lparr>img_alt = Inr (Some ''a pin''), img_src = Inl TimeoutError\<rparr>"
         and a = "Some ''a pin''" and p = "the (Some ''9'')" and href = None and images = "[]"
         and f = "({||}, [])",
         THEN conjunct2, THEN conjunct2, THEN conjunct2, THEN conjunct2, THEN conjunct2, THEN conjunct2, THEN conjunct2, THEN conjunct2, THEN conjunct2, THEN conjunct2, THEN conjunct2, THEN conjunct2, THEN conjunct2]
    by this
  with al sr nb
  have im: "scan_images 5 False (the (Some ''9'')) None
        [\<lparr>img_alt = Inr (Some ''a pin''), img_src = Inl TimeoutError\<rparr>] ({||}, [])
      = (Some TimeoutError, ({||}, []))"
    by blast
  have "\<not> (5 :: int) \<le> int (fcard (fst (({||}, []) :: found)))
      \<and> div_images broken_image
          = Inr [\<lparr>img_alt = Inr (Some ''a pin''), img_src = Inl TimeoutError\<rparr>]
      \<and> div_href broken_image = Inr None
      \<and> div_pin_id broken_image = Inr (Some ''9'') \<and> truthy (Some ''9'')
      \<and> scan_images 5 False (the (Some ''9'')) None
            [\<lparr>img_alt = Inr (Some ''a pin''), img_src = Inl TimeoutError\<rparr>] ({||}, [])
          = (Some TimeoutError, ({||}, [])) \<longrightarrow>
      scan_divs 5 False [broken_image] ({||}, []) = (Some TimeoutError, ({||}, []))"
    using socket_error_returns_collected
      [where e = TimeoutError and num = 5 and ensure_alt = False and dv = broken_image
         and images = "[\<lparr>img_alt = Inr (Some ''a pin''), img_src = Inl TimeoutError\<rparr>]"
         and href = None and pid = "Some ''9''" and f = "({||}, [])" and f' = "({||}, [])"
         and dvs = "[]",
         THEN conjunct2, THEN conjunct2, THEN conjunct2, THEN conjunct2, THEN conjunct2, THEN conjunct2, THEN conjunct2, THEN conjunct2, THEN conjunct2, THEN conjunct2, THEN conjunct2, THEN conjunct1]
    by this
  with room bi bh bp tp im
  have sd: "scan_divs 5 False [broken_image] ({||}, []) = (Some TimeoutError, ({||}, []))"
    by blast
  from op lp nv sl sn sd show ?thesis by (intro conjI)
qed

section \<open>Properties of the recursive expansion\<close>


lemma geometric_Suc: "geometric l (Suc n) = 1 + l * geometric l n"
proof -
  have "(\<Sum>i\<le>Suc n. l ^ i) = l ^ 0 + (\<Sum>i\<le>n. l ^ Suc i)"
    by (rule sum.atMost_Suc_shift)
  also have "(\<Sum>i\<le>n. l ^ Suc i) = l * (\<Sum>i\<le>n. l ^ i)"
    by (simp add: sum_distrib_left)
  finally show ?thesis by (simp add: geometric_def)
qed

lemma geometric_pos: "1 \<le> geometric l n"
  by (cases n) (simp_all add: geometric_Suc, simp add: geometric_def)

lemma resolution_comprehension_length:
  "resolution_comprehension rx ry xs = Inr ys \<Longrightarrow> length ys \<le> length xs"
proof (induction xs arbitrary: ys)
  case Nil
  then show ?case by simp
next
  case (Cons x xs)
  then show ?case
    by (fastforce split: option.splits prod.splits sum.splits if_splits)
qed

lemma filter_by_resolution_length:
  "filter_by_resolution rx ry xs = Inr ys \<Longrightarrow> length ys \<le> length xs"
  by (auto simp: filter_by_resolution_def dest: resolution_comprehension_length split: if_splits)

lemma batch_within_limit:
  assumes "filter_by_resolution rx ry (scraped_candidates limit scraped) = Inr imgs" and "1 \<le> limit"
  shows "length imgs \<le> nat limit"
proof -
  from scraped_candidates_props [of limit scraped] assms(2)
  have "int (length (scraped_candidates limit scraped)) \<le> limit" by simp
  with filter_by_resolution_length [OF assms(1)] show ?thesis by simp
qed

lemma search_okI:
  assumes "snd res = calls @ new" and "list_all (\<lambda>i. inv_recurse_factor i \<le> d) new"
    and "fst res = None \<longrightarrow> filter (\<lambda>i. inv_recurse_factor i = d) new
           = map (child_call d) (filter (\<lambda>img. Some (str_id (media_id img)) \<noteq> seed) imgs)"
    and "1 \<le> limit \<longrightarrow> length new \<le> length imgs * geometric (nat limit) (nat d)"
  shows "search_ok limit seed d imgs calls res"
  unfolding search_ok_def
  by (rule exI [of _ new]) (intro conjI assms)

lemma search_okE:
  assumes "search_ok limit seed d imgs calls res"
  obtains new where "snd res = calls @ new" and "list_all (\<lambda>i. inv_recurse_factor i \<le> d) new"
    and "fst res = None \<longrightarrow> filter (\<lambda>i. inv_recurse_factor i = d) new
           = map (child_call d) (filter (\<lambda>img. Some (str_id (media_id img)) \<noteq> seed) imgs)"
    and "1 \<le> limit \<longrightarrow> length new \<le> length imgs * geometric (nat limit) (nat d)"
proof -
  from assms obtain new where c: "snd res = calls @ new
      \<and> list_all (\<lambda>i. inv_recurse_factor i \<le> d) new
      \<and> (fst res = None \<longrightarrow> filter (\<lambda>i. inv_recurse_factor i = d) new
           = map (child_call d) (filter (\<lambda>img. Some (str_id (media_id img)) \<noteq> seed) imgs))
      \<and> (1 \<le> limit \<longrightarrow> length new \<le> length imgs * geometric (nat limit) (nat d))"
    unfolding search_ok_def ..
  from c show thesis
    by (elim conjE) (rule that [of new], assumption+)
qed

lemma call_okI:
  assumes "calls' = calls @ \<lparr>inv_url = url, inv_project_name = pn, inv_recurse_factor = rf\<rparr> # new"
    and "list_all (\<lambda>i. inv_recurse_factor i < rf) new"
    and "1 \<le> limit \<longrightarrow> length new + 1 \<le> geometric (nat limit) (nat rf)"
  shows "call_ok limit url pn rf calls calls'"
  unfolding call_ok_def
  by (rule exI [of _ new]) (intro conjI assms)

lemma call_okE:
  assumes "call_ok limit url pn rf calls calls'"
  obtains new where
    "calls' = calls @ \<lparr>inv_url = url, inv_project_name = pn, inv_recurse_factor = rf\<rparr> # new"
    and "list_all (\<lambda>i. inv_recurse_factor i < rf) new"
    and "1 \<le> limit \<longrightarrow> length new + 1 \<le> geometric (nat limit) (nat rf)"
proof -
  from assms obtain new where c:
    "calls' = calls @ \<lparr>inv_url = url, inv_project_name = pn, inv_recurse_factor = rf\<rparr> # new
      \<and> list_all (\<lambda>i. inv_recurse_factor i < rf) new
      \<and> (1 \<le> limit \<longrightarrow> length new + 1 \<le> geometric (nat limit) (nat rf))"
    unfolding call_ok_def ..
  from c show thesis
    by (elim conjE) (rule that [of new], assumption+)
qed

lemma scrape_images_leaf_or_search:
  "(\<exists>r. scrape_images world nc limit rx ry url pn rf ub calls
        = (r, calls @ [\<lparr>inv_url = url, inv_project_name = pn, inv_recurse_factor = rf\<rparr>]))
   \<or> (\<exists>b ba. entry_error (world (length calls) url) = None
        \<and> \<not> (url = [] \<or> pn = []) \<and> \<not> \<not> ub
        \<and> browser_error (world (length calls) url) = None \<and> \<not> nc
        \<and> scrape_result (world (length calls) url) = Inr b
        \<and> filter_by_resolution rx ry (scraped_candidates limit b) = Inr ba
        \<and> ba \<noteq> [] \<and> log_error (world (length calls) url) = None \<and> 0 < rf
        \<and> snd (scrape_images world nc limit rx ry url pn rf ub calls)
            = snd (visual_search world nc limit rx ry (original_pin_id url) (rf - 1) ba
                     (calls @ [\<lparr>inv_url = url, inv_project_name = pn, inv_recurse_factor = rf\<rparr>])))"
  by (auto simp: scrape_images.simps Let_def split: option.splits sum.splits prod.splits)

lemma call_shape:
  "call_ok limit url pn rf calls (snd (scrape_images world nc limit rx ry url pn rf ub calls))"
  and search_shape: "search_ok limit seed d imgs calls (visual_search world nc limit rx ry seed d imgs calls)"
proof (induction world nc limit rx ry url pn rf ub calls
    and world nc limit rx ry seed d imgs calls
    rule: scrape_images_visual_search.induct)
  case (1 world nc limit rx ry url pn rf ub calls)
  let ?me = "\<lparr>inv_url = url, inv_project_name = pn, inv_recurse_factor = rf\<rparr>"
  have leaf: "call_ok limit url pn rf calls (calls @ [?me])"
    using geometric_pos [of "nat limit" "nat rf"] by (intro call_okI [of _ _ _ _ _ "[]"]) simp_all
  from scrape_images_leaf_or_search [of world nc limit rx ry url pn rf ub calls]
  show ?case
  proof (elim disjE exE conjE)
    fix r
    assume "scrape_images world nc limit rx ry url pn rf ub calls = (r, calls @ [?me])"
    with leaf show ?thesis by simp
  next
    fix b ba
    assume c: "entry_error (world (length calls) url) = None"
      "\<not> (url = [] \<or> pn = [])" "\<not> \<not> ub"
      "browser_error (world (length calls) url) = None" "\<not> nc"
      "scrape_result (world (length calls) url) = Inr b"
      and fr: "filter_by_resolution rx ry (scraped_candidates limit b) = Inr ba"
      and c2: "ba \<noteq> []" "log_error (world (length calls) url) = None"
      and rec: "0 < rf"
      and eq: "snd (scrape_images world nc limit rx ry url pn rf ub calls)
            = snd (visual_search world nc limit rx ry (original_pin_id url) (rf - 1) ba
                     (calls @ [?me]))"
    let ?res = "visual_search world nc limit rx ry (original_pin_id url) (rf - 1) ba (calls @ [?me])"
    have "search_ok limit (original_pin_id url) (rf - 1) ba (calls @ [?me]) ?res"
      by (rule "1.IH" [OF c fr c2(1) refl c2(2) rec])
    then obtain new where n: "snd ?res = (calls @ [?me]) @ new"
      "list_all (\<lambda>i. inv_recurse_factor i \<le> rf - 1) new"
      "1 \<le> limit \<longrightarrow> length new \<le> length ba * geometric (nat limit) (nat (rf - 1))"
      by (rule search_okE)
    have a: "snd ?res = calls @ ?me # new" using n(1) by simp
    have b: "list_all (\<lambda>i. inv_recurse_factor i < rf) new"
      using n(2) by (auto simp: list_all_iff)
    have c: "1 \<le> limit \<longrightarrow> length new + 1 \<le> geometric (nat limit) (nat rf)"
    proof
      assume lim: "1 \<le> limit"
      from rec have nr: "nat rf = Suc (nat (rf - 1))" by linarith
      from batch_within_limit [OF fr lim] have "length ba \<le> nat limit" .
      then have "length ba * geometric (nat limit) (nat (rf - 1))
          \<le> nat limit * geometric (nat limit) (nat (rf - 1))"
        by (rule mult_le_mono1)
      moreover from n(3) lim
      have "length new \<le> length ba * geometric (nat limit) (nat (rf - 1))" by blast
      ultimately have "length new \<le> nat limit * geometric (nat limit) (nat (rf - 1))"
        by (rule le_trans [rotated])
      then show "length new + 1 \<le> geometric (nat limit) (nat rf)"
        unfolding nr geometric_Suc by simp
    qed
    show ?thesis unfolding eq by (rule call_okI [OF a b c])
  qed
next
  case (2 world nc limit rx ry seed d calls)
  show ?case by (rule search_okI [of _ _ "[]"]) simp_all
next
  case (3 world nc limit rx ry seed d img imgs calls)
  show ?case
  proof (cases "Some (str_id (media_id img)) = seed")
    case True
    from "3.IH"(1) [OF True] obtain new where
      n: "snd (visual_search world nc limit rx ry seed d imgs calls) = calls @ new"
      "list_all (\<lambda>i. inv_recurse_factor i \<le> d) new"
      "fst (visual_search world nc limit rx ry seed d imgs calls) = None \<longrightarrow>
         filter (\<lambda>i. inv_recurse_factor i = d) new
           = map (child_call d) (filter (\<lambda>img. Some (str_id (media_id img)) \<noteq> seed) imgs)"
      "1 \<le> limit \<longrightarrow> length new \<le> length imgs * geometric (nat limit) (nat d)"
      by (rule search_okE)
    from n(4) have l: "1 \<le> limit \<longrightarrow> length new \<le> length (img # imgs) * geometric (nat limit) (nat d)"
      by auto
    from True have eq: "visual_search world nc limit rx ry seed d (img # imgs) calls
        = visual_search world nc limit rx ry seed d imgs calls" by simp
    from True have fl: "filter (\<lambda>img. Some (str_id (media_id img)) \<noteq> seed) (img # imgs)
        = filter (\<lambda>img. Some (str_id (media_id img)) \<noteq> seed) imgs" by simp
    show ?thesis unfolding eq
      by (rule search_okI [OF n(1) n(2) _ l]) (use n(3) in \<open>simp only: fl\<close>)
  next
    case False
    let ?child = "scrape_images world nc limit rx ry (visual_search_url (media_id img))
        (new_project_name (media_id img)) d True calls"
    obtain r y where ch: "?child = (r, y)" by (cases ?child) auto
    from "3.IH"(2) [OF False] ch
    have "call_ok limit (visual_search_url (media_id img)) (new_project_name (media_id img)) d calls y"
      by simp
    then obtain new1 where n1:
      "y = calls @ \<lparr>inv_url = visual_search_url (media_id img),
             inv_project_name = new_project_name (media_id img), inv_recurse_factor = d\<rparr> # new1"
      "list_all (\<lambda>i. inv_recurse_factor i < d) new1"
      "1 \<le> limit \<longrightarrow> length new1 + 1 \<le> geometric (nat limit) (nat d)"
      by (rule call_okE)
    have y: "y = calls @ child_call d img # new1" using n1(1) by (simp add: child_call_def)
    have cd: "inv_recurse_factor (child_call d img) = d" by (simp add: child_call_def)
    show ?thesis
    proof (cases r)
      case (Some e)
      with False ch have eq: "visual_search world nc limit rx ry seed d (img # imgs) calls = (Some e, y)"
        by simp
      have p0: "snd (Some e, y) = calls @ (child_call d img # new1)" using y by simp
      have p1: "list_all (\<lambda>i. inv_recurse_factor i \<le> d) (child_call d img # new1)"
        using n1(2) cd by (auto simp: list_all_iff)
      have p2: "1 \<le> limit \<longrightarrow> length (child_call d img # new1)
          \<le> length (img # imgs) * geometric (nat limit) (nat d)"
        using n1(3) by auto
      have p3: "fst (Some e, y) = None \<longrightarrow>
          filter (\<lambda>i. inv_recurse_factor i = d) (child_call d img # new1)
            = map (child_call d) (filter (\<lambda>img. Some (str_id (media_id img)) \<noteq> seed) (img # imgs))"
        by simp
      show ?thesis unfolding eq by (rule search_okI [OF p0 p1 p3 p2])
    next
      case None
      let ?rest = "visual_search world nc limit rx ry seed d imgs y"
      from False ch None have eq: "visual_search world nc limit rx ry seed d (img # imgs) calls = ?rest"
        by simp
      from "3.IH"(3) [OF False ch [symmetric] None] obtain new2 where
        n2: "snd ?rest = y @ new2"
        "list_all (\<lambda>i. inv_recurse_factor i \<le> d) new2"
        "fst ?rest = None \<longrightarrow> filter (\<lambda>i. inv_recurse_factor i = d) new2
           = map (child_call d) (filter (\<lambda>img. Some (str_id (media_id img)) \<noteq> seed) imgs)"
        "1 \<le> limit \<longrightarrow> length new2 \<le> length imgs * geometric (nat limit) (nat d)"
        by (rule search_okE)
      let ?new = "child_call d img # new1 @ new2"
      have a: "snd ?rest = calls @ ?new" using y n2(1) by simp
      have b: "list_all (\<lambda>i. inv_recurse_factor i \<le> d) ?new"
        using n1(2) n2(2) cd by (auto simp: list_all_iff)
      have f1: "filter (\<lambda>i. inv_recurse_factor i = d) new1 = []"
        using n1(2) by (auto simp: list_all_iff filter_empty_conv)
      have c: "fst ?rest = None \<longrightarrow> filter (\<lambda>i. inv_recurse_factor i = d) ?new
           = map (child_call d) (filter (\<lambda>img. Some (str_id (media_id img)) \<noteq> seed) (img # imgs))"
      proof
        assume "fst ?rest = None"
        with n2(3) have "filter (\<lambda>i. inv_recurse_factor i = d) new2
           = map (child_call d) (filter (\<lambda>img. Some (str_id (media_id img)) \<noteq> seed) imgs)"
          by (rule mp)
        with f1 False cd show "filter (\<lambda>i. inv_recurse_factor i = d) ?new
           = map (child_call d) (filter (\<lambda>img. Some (str_id (media_id img)) \<noteq> seed) (img # imgs))"
          by simp
      qed
      have d: "1 \<le> limit \<longrightarrow> length ?new \<le> length (img # imgs) * geometric (nat limit) (nat d)"
        using n1(3) n2(4) by auto
      show ?thesis unfolding eq by (rule search_okI [OF a b c d])
    qed
  qed
qed


lemma download_result_ignored:
  "scrape_images (\<lambda>n u. (world n u)\<lparr>download_result := other n u\<rparr>) nc limit rx ry url pn rf ub calls
     = scrape_images world nc limit rx ry url pn rf ub calls"
  and download_result_ignored_search:
  "visual_search (\<lambda>n u. (world n u)\<lparr>download_result := other n u\<rparr>) nc limit rx ry seed d imgs calls
     = visual_search world nc limit rx ry seed d imgs calls"
proof (induction world nc limit rx ry url pn rf ub calls
    and world nc limit rx ry seed d imgs calls
    rule: scrape_images_visual_search.induct)
  case (1 world nc limit rx ry url pn rf ub calls)
  then show ?case
    by (auto simp: scrape_images.simps Let_def split: option.splits sum.splits prod.splits)
next
  case (2 world nc limit rx ry seed d calls)
  show ?case by simp
next
  case (3 world nc limit rx ry seed d img imgs calls)
  then show ?case
    by (auto split: option.splits sum.splits prod.splits)
qed

lemma normal_return_leaf:
  assumes "scrape_images world nc limit rx ry url pn rf True calls = (None, calls')"
    and "url \<noteq> []" and "pn \<noteq> []" and "\<not> nc"
    and "scrape_result (world (length calls) url) = Inr scraped_imgs"
    and "filter_by_resolution rx ry (scraped_candidates limit scraped_imgs) = Inr imgs"
    and "rf \<le> 0 \<or> imgs = []"
  shows "calls' = calls @ [\<lparr>inv_url = url, inv_project_name = pn, inv_recurse_factor = rf\<rparr>]"
  using assms
  by (auto simp: scrape_images.simps Let_def split: option.splits sum.splits prod.splits if_splits)

lemma normal_return_search:
  assumes "scrape_images world nc limit rx ry url pn rf True calls = (None, calls')"
    and "url \<noteq> []" and "pn \<noteq> []" and "\<not> nc"
    and "scrape_result (world (length calls) url) = Inr scraped_imgs"
    and "filter_by_resolution rx ry (scraped_candidates limit scraped_imgs) = Inr imgs"
    and "0 < rf" and "imgs \<noteq> []"
  shows "visual_search world nc limit rx ry (original_pin_id url) (rf - 1) imgs
           (calls @ [\<lparr>inv_url = url, inv_project_name = pn, inv_recurse_factor = rf\<rparr>])
         = (None, calls')"
  using assms
  by (auto simp: scrape_images.simps Let_def split: option.splits sum.splits prod.splits if_splits)

text \<open>
  The pin id found in the visual-search URL of an item with a non-negative integer id is
  that id: a recursive call passes over the item it was made for.
\<close>

lemma digit_char_is_digit: "d < 10 \<Longrightarrow> is_digit (digit_char d)"
  unfolding is_digit_def digit_char_def by (rule nth_mem) simp

lemma str_nat_digits: "str_nat n \<noteq> [] \<and> list_all is_digit (str_nat n)"
proof (induction n rule: str_nat.induct)
  case (1 n)
  show ?case
  proof (cases "n < 10")
    case True
    then have "str_nat n = [digit_char n]" by (subst str_nat.simps) (simp del: str_nat.simps)
    with True show ?thesis by (simp add: digit_char_is_digit del: str_nat.simps)
  next
    case False
    with 1 have ih: "list_all is_digit (str_nat (n div 10))" by (simp del: str_nat.simps)
    from False have "str_nat n = str_nat (n div 10) @ [digit_char (n mod 10)]"
      by (subst str_nat.simps) (simp del: str_nat.simps)
    with ih show ?thesis by (simp add: digit_char_is_digit del: str_nat.simps)
  qed
qed

lemma take_digits:
  assumes "list_all is_digit ds" and "\<not> is_digit c"
  shows "takeWhile is_digit (ds @ c # r) = ds" and "dropWhile is_digit (ds @ c # r) = c # r"
  using assms by (induction ds) simp_all

lemma pin_id_of_visual_search_url:
  assumes "0 \<le> n"
  shows "original_pin_id (visual_search_url (IntId n)) = Some (str_int n)"
proof -
  from assms have s: "str_int n = str_nat (nat n)" by (simp add: str_int_def del: str_nat.simps)
  from str_nat_digits [of "nat n"] have ne: "str_nat (nat n) \<noteq> []"
    and dg: "list_all is_digit (str_nat (nat n))" by (simp_all del: str_nat.simps)
  have sl: "\<not> is_digit CHR ''/''" by (simp add: is_digit_def)
  note td = take_digits [OF dg sl]
  show ?thesis
    unfolding original_pin_id_def visual_search_url_def str_id.simps s
    using ne by (simp add: td del: str_nat.simps)
qed

lemma failed_log_write_raises:
  assumes "entry_error (world (length calls) url) = None" and "url \<noteq> []" and "pn \<noteq> []"
    and "browser_error (world (length calls) url) = None" and "\<not> nc"
    and "scrape_result (world (length calls) url) = Inr scraped_imgs"
    and "filter_by_resolution rx ry (scraped_candidates limit scraped_imgs) = Inr imgs"
    and "imgs \<noteq> []" and "log_error (world (length calls) url) = Some e"
  shows "scrape_images world nc limit rx ry url pn rf True calls
         = (Some e, calls @ [\<lparr>inv_url = url, inv_project_name = pn, inv_recurse_factor = rf\<rparr>])"
  using assms by (simp add: scrape_images.simps Let_def)

lemma failed_cache_write_raises:
  assumes "entry_error (world (length calls) url) = None" and "url \<noteq> []" and "pn \<noteq> []"
    and "browser_error (world (length calls) url) = None" and "\<not> nc"
    and "scrape_result (world (length calls) url) = Inr scraped_imgs"
    and "filter_by_resolution rx ry (scraped_candidates limit scraped_imgs) = Inr imgs"
    and "log_error (world (length calls) url) = None" and "rf \<le> 0"
  shows "scrape_images world nc limit rx ry url pn rf True calls
         = (cache_error (world (length calls) url),
            calls @ [\<lparr>inv_url = url, inv_project_name = pn, inv_recurse_factor = rf\<rparr>])"
  using assms by (simp add: scrape_images.simps Let_def)

lemma exception_of_a_recursive_call_leaves_the_first_call:
  "scrape_images out_of_frames False 5 0 0 ''https://www.pinterest.com/pin/1/'' ''cats'' 1 True []
   = (Some RecursionError,
      [\<lparr>inv_url = ''https://www.pinterest.com/pin/1/'', inv_project_name = ''cats'',
         inv_recurse_factor = 1\<rparr>,
       \<lparr>inv_url = ''https://se.pinterest.com/pin/2/visual-search/?cropSource=5&entrypoint=closeup_cta&rs=flashlight'',
         inv_project_name = ''20251228_Test_2'', inv_recurse_factor = 0\<rparr>])"
  by code_simp

text \<open>
  C4, as the code has it. Take a browser-mode call of \<open>scrape_images\<close> that gets past its
  checks, whose crawl returns, and that itself returns normally; let \<open>imgs\<close> be the items it
  hands to the downloader. With a positive \<open>recurse_factor\<close>, the calls of depth
  \<open>recurse_factor - 1\<close> it gives rise to are exactly one per item of \<open>imgs\<close> whose id, as a
  string, is not the pin id found in the call's own \<open>url\<close>, in order; every other call below
  it has a smaller depth. With \<open>recurse_factor \<le> 0\<close> or no item, it makes no call. For
  \<open>limit \<ge> 1\<close> any call of \<open>scrape_images\<close>, however it ends, gives rise to at most
  \<open>1 + limit + ... + limit ^ recurse_factor\<close> calls, itself included. The call made for an
  item is for the URL \<open>https://se.pinterest.com/pin/\<close>, the item's id,
  \<open>/visual-search/?cropSource=5&entrypoint=closeup_cta&rs=flashlight\<close> and for the project
  \<open>20251228_Test_\<close> followed by the id. And what the downloader did with the items changes
  nothing: with any other outcome of every download the call returns the same, after the
  same calls.
\<close>

theorem recursion_one_call_per_item_and_bounded:
  assumes "scrape_images world no_cookies limit res_x res_y url project_name recurse_factor True calls
      = (None, calls')"
    and "url \<noteq> []" and "project_name \<noteq> []" and "\<not> no_cookies"
    and "scrape_result (world (length calls) url) = Inr scraped_imgs"
    and "filter_by_resolution res_x res_y (scraped_candidates limit scraped_imgs) = Inr imgs"
  shows "(\<exists>new. calls' = calls @ \<lparr>inv_url = url, inv_project_name = project_name,
                                   inv_recurse_factor = recurse_factor\<rparr> # new
      \<and> filter (\<lambda>i. inv_recurse_factor i = recurse_factor - 1) new
          = (if 0 < recurse_factor
             then map (child_call (recurse_factor - 1))
                    (filter (\<lambda>img. Some (str_id (media_id img)) \<noteq> original_pin_id url) imgs)
             else [])
      \<and> list_all (\<lambda>i. inv_recurse_factor i < recurse_factor) new
      \<and> (recurse_factor \<le> 0 \<or> imgs = [] \<longrightarrow> new = [])
      \<and> (1 \<le> limit \<longrightarrow> length new + 1 \<le> (\<Sum>i\<le>nat recurse_factor. nat limit ^ i))
      \<and> (1 \<le> limit \<longrightarrow>
           length (snd (scrape_images world' no_cookies' limit x y url' name' depth browser calls0))
             \<le> length calls0 + (\<Sum>i\<le>nat depth. nat limit ^ i)))
    \<and> child_call depth' img
        = \<lparr>inv_url = ''https://se.pinterest.com/pin/'' @ str_id (media_id img)
                      @ ''/visual-search/?cropSource=5&entrypoint=closeup_cta&rs=flashlight'',
           inv_project_name = ''20251228_Test_'' @ str_id (media_id img),
           inv_recurse_factor = depth'\<rparr>
    \<and> scrape_images (\<lambda>n u. (world n u)\<lparr>download_result := other n u\<rparr>) no_cookies limit res_x res_y
          url project_name recurse_factor True calls
        = (None, calls')"
proof -
  let ?me = "\<lparr>inv_url = url, inv_project_name = project_name, inv_recurse_factor = recurse_factor\<rparr>"
  from call_shape [of limit url project_name recurse_factor calls world no_cookies res_x res_y True]
    assms(1)
  have "call_ok limit url project_name recurse_factor calls calls'" by simp
  then obtain new where n: "calls' = calls @ ?me # new"
    "list_all (\<lambda>i. inv_recurse_factor i < recurse_factor) new"
    "1 \<le> limit \<longrightarrow> length new + 1 \<le> geometric (nat limit) (nat recurse_factor)"
    by (rule call_okE)
  have general: "1 \<le> limit \<longrightarrow>
      length (snd (scrape_images world' no_cookies' limit x y url' name' depth browser calls0))
        \<le> length calls0 + (\<Sum>i\<le>nat depth. nat limit ^ i)"
  proof
    assume lim: "1 \<le> limit"
    from call_shape [of limit url' name' depth calls0 world' no_cookies' x y browser]
    obtain new' where "snd (scrape_images world' no_cookies' limit x y url' name' depth browser calls0)
        = calls0 @ \<lparr>inv_url = url', inv_project_name = name', inv_recurse_factor = depth\<rparr> # new'"
      and "1 \<le> limit \<longrightarrow> length new' + 1 \<le> geometric (nat limit) (nat depth)"
      by (rule call_okE)
    with lim show "length (snd (scrape_images world' no_cookies' limit x y url' name' depth browser calls0))
        \<le> length calls0 + (\<Sum>i\<le>nat depth. nat limit ^ i)"
      by (simp add: geometric_def)
  qed
  have leaf: "recurse_factor \<le> 0 \<or> imgs = [] \<longrightarrow> new = []"
  proof
    assume "recurse_factor \<le> 0 \<or> imgs = []"
    from normal_return_leaf [OF assms this] have "calls' = calls @ [?me]" .
    with n(1) show "new = []" by simp
  qed
  have flt: "filter (\<lambda>i. inv_recurse_factor i = recurse_factor - 1) new
          = (if 0 < recurse_factor
             then map (child_call (recurse_factor - 1))
                    (filter (\<lambda>img. Some (str_id (media_id img)) \<noteq> original_pin_id url) imgs)
             else [])"
  proof (cases "0 < recurse_factor \<and> imgs \<noteq> []")
    case False
    with leaf have "new = []" by auto
    with False show ?thesis by auto
  next
    case True
    let ?res = "visual_search world no_cookies limit res_x res_y (original_pin_id url)
        (recurse_factor - 1) imgs (calls @ [?me])"
    from True have pos: "0 < recurse_factor" and ne: "imgs \<noteq> []" by simp_all
    from normal_return_search [OF assms pos ne] have eq: "?res = (None, calls')" .
    from search_shape [of limit "original_pin_id url" "recurse_factor - 1" imgs "calls @ [?me]"
        world no_cookies res_x res_y]
    obtain new2 where n2: "snd ?res = (calls @ [?me]) @ new2"
      "fst ?res = None \<longrightarrow> filter (\<lambda>i. inv_recurse_factor i = recurse_factor - 1) new2
         = map (child_call (recurse_factor - 1))
             (filter (\<lambda>img. Some (str_id (media_id img)) \<noteq> original_pin_id url) imgs)"
      by (rule search_okE)
    from n2(1) n(1) eq have "new2 = new" by simp
    with n2(2) eq True show ?thesis by simp
  qed
  from n(3) have bound: "1 \<le> limit \<longrightarrow> length new + 1 \<le> (\<Sum>i\<le>nat recurse_factor. nat limit ^ i)"
    by (simp add: geometric_def)
  have shape: "child_call depth' img
        = \<lparr>inv_url = ''https://se.pinterest.com/pin/'' @ str_id (media_id img)
                      @ ''/visual-search/?cropSource=5&entrypoint=closeup_cta&rs=flashlight'',
           inv_project_name = ''20251228_Test_'' @ str_id (media_id img),
           inv_recurse_factor = depth'\<rparr>"
    by (simp add: child_call_def visual_search_url_def new_project_name_def)
  have same: "scrape_images (\<lambda>n u. (world n u)\<lparr>download_result := other n u\<rparr>) no_cookies limit
        res_x res_y url project_name recurse_factor True calls = (None, calls')"
    unfolding download_result_ignored by (rule assms(1))
  have ex: "\<exists>new. calls' = calls @ ?me # new
      \<and> filter (\<lambda>i. inv_recurse_factor i = recurse_factor - 1) new
          = (if 0 < recurse_factor
             then map (child_call (recurse_factor - 1))
                    (filter (\<lambda>img. Some (str_id (media_id img)) \<noteq> original_pin_id url) imgs)
             else [])
      \<and> list_all (\<lambda>i. inv_recurse_factor i < recurse_factor) new
      \<and> (recurse_factor \<le> 0 \<or> imgs = [] \<longrightarrow> new = [])
      \<and> (1 \<le> limit \<longrightarrow> length new + 1 \<le> (\<Sum>i\<le>nat recurse_factor. nat limit ^ i))
      \<and> (1 \<le> limit \<longrightarrow>
           length (snd (scrape_images world' no_cookies' limit x y url' name' depth browser calls0))
             \<le> length calls0 + (\<Sum>i\<le>nat depth. nat limit ^ i))"
    by (rule exI [of _ new]) (intro conjI n(1) flt n(2) leaf bound general)
  show ?thesis by (intro conjI ex shape same)
qed

theorem recursion_ignores_download_outcome:
  "download_result (nothing_downloaded 0 ''https://www.pinterest.com/pin/1/'') = Inr []
   \<and> scrape_images nothing_downloaded False 5 0 0 ''https://www.pinterest.com/pin/1/'' ''cats'' 1
        True []
     = (None,
        [\<lparr>inv_url = ''https://www.pinterest.com/pin/1/'', inv_project_name = ''cats'',
           inv_recurse_factor = 1\<rparr>,
         \<lparr>inv_url = ''https://se.pinterest.com/pin/2/visual-search/?cropSource=5&entrypoint=closeup_cta&rs=flashlight'',
           inv_project_name = ''20251228_Test_2'', inv_recurse_factor = 0\<rparr>,
         \<lparr>inv_url = ''https://se.pinterest.com/pin/3/visual-search/?cropSource=5&entrypoint=closeup_cta&rs=flashlight'',
           inv_project_name = ''20251228_Test_3'', inv_recurse_factor = 0\<rparr>])"
  by code_simp

lemma related_run:
  "scrape_images related False 5 0 0 ''https://www.pinterest.com/pin/1/'' ''cats'' 2 True []
   = (None,
      [\<lparr>inv_url = ''https://www.pinterest.com/pin/1/'', inv_project_name = ''cats'',
         inv_recurse_factor = 2\<rparr>,
       \<lparr>inv_url = ''https://se.pinterest.com/pin/2/visual-search/?cropSource=5&entrypoint=closeup_cta&rs=flashlight'',
         inv_project_name = ''20251228_Test_2'', inv_recurse_factor = 1\<rparr>,
       \<lparr>inv_url = ''https://se.pinterest.com/pin/1/visual-search/?cropSource=5&entrypoint=closeup_cta&rs=flashlight'',
         inv_project_name = ''20251228_Test_1'', inv_recurse_factor = 0\<rparr>,
       \<lparr>inv_url = ''https://se.pinterest.com/pin/3/visual-search/?cropSource=5&entrypoint=closeup_cta&rs=flashlight'',
         inv_project_name = ''20251228_Test_3'', inv_recurse_factor = 1\<rparr>])"
  by code_simp


theorem recursion_one_call_per_item_and_bounded_witness:
  "scrape_images related False 5 0 0 ''https://www.pinterest.com/pin/1/'' ''cats'' 2 True []
     = (None,
        [\<lparr>inv_url = ''https://www.pinterest.com/pin/1/'', inv_project_name = ''cats'',
           inv_recurse_factor = 2\<rparr>,
         \<lparr>inv_url = ''https://se.pinterest.com/pin/2/visual-search/?cropSource=5&entrypoint=closeup_cta&rs=flashlight'',
           inv_project_name = ''20251228_Test_2'', inv_recurse_factor = 1\<rparr>,
         \<lparr>inv_url = ''https://se.pinterest.com/pin/1/visual-search/?cropSource=5&entrypoint=closeup_cta&rs=flashlight'',
           inv_project_name = ''20251228_Test_1'', inv_recurse_factor = 0\<rparr>,
         \<lparr>inv_url = ''https://se.pinterest.com/pin/3/visual-search/?cropSource=5&entrypoint=closeup_cta&rs=flashlight'',
           inv_project_name = ''20251228_Test_3'', inv_recurse_factor = 1\<rparr>])
   \<and> original_pin_id ''https://www.pinterest.com/pin/1/'' = Some ''1''
   \<and> filter (\<lambda>i. inv_recurse_factor i = 2 - 1)
         [\<lparr>inv_url = ''https://se.pinterest.com/pin/2/visual-search/?cropSource=5&entrypoint=closeup_cta&rs=flashlight'',
            inv_project_name = ''20251228_Test_2'', inv_recurse_factor = 1\<rparr>,
          \<lparr>inv_url = ''https://se.pinterest.com/pin/1/visual-search/?cropSource=5&entrypoint=closeup_cta&rs=flashlight'',
            inv_project_name = ''20251228_Test_1'', inv_recurse_factor = 0\<rparr>,
          \<lparr>inv_url = ''https://se.pinterest.com/pin/3/visual-search/?cropSource=5&entrypoint=closeup_cta&rs=flashlight'',
            inv_project_name = ''20251228_Test_3'', inv_recurse_factor = 1\<rparr>]
       = map (child_call (2 - 1))
           (filter (\<lambda>img. Some (str_id (media_id img)) \<noteq> original_pin_id ''https://www.pinterest.com/pin/1/'')
             three_pins)
   \<and> scrape_images (\<lambda>n u. (related n u)\<lparr>download_result := Inl OSError\<rparr>) False 5 0 0
        ''https://www.pinterest.com/pin/1/'' ''cats'' 2 True []
     = scrape_images related False 5 0 0 ''https://www.pinterest.com/pin/1/'' ''cats'' 2 True []"
proof -
  let ?c2 = "\<lparr>inv_url = ''https://se.pinterest.com/pin/2/visual-search/?cropSource=5&entrypoint=closeup_cta&rs=flashlight'',
            inv_project_name = ''20251228_Test_2'', inv_recurse_factor = 1\<rparr>"
  let ?g1 = "\<lparr>inv_url = ''https://se.pinterest.com/pin/1/visual-search/?cropSource=5&entrypoint=closeup_cta&rs=flashlight'',
            inv_project_name = ''20251228_Test_1'', inv_recurse_factor = 0\<rparr>"
  let ?c3 = "\<lparr>inv_url = ''https://se.pinterest.com/pin/3/visual-search/?cropSource=5&entrypoint=closeup_cta&rs=flashlight'',
            inv_project_name = ''20251228_Test_3'', inv_recurse_factor = 1\<rparr>"
  let ?top = "\<lparr>inv_url = ''https://www.pinterest.com/pin/1/'', inv_project_name = ''cats'',
           inv_recurse_factor = 2\<rparr>"
  have u: "''https://www.pinterest.com/pin/1/'' \<noteq> []" and p: "''cats'' \<noteq> []" and c: "\<not> False"
    by simp_all
  have sc: "scrape_result (related (length ([] :: invocation list)) ''https://www.pinterest.com/pin/1/'')
      = Inr three_pins"
    by (simp add: related_def answers_def)
  have fr: "filter_by_resolution 0 0 (scraped_candidates 5 three_pins) = Inr three_pins"
    by code_simp
  have seed: "original_pin_id ''https://www.pinterest.com/pin/1/'' = Some ''1''"
    by code_simp
  note t = recursion_one_call_per_item_and_bounded
    [OF related_run u p c sc fr, where other = "\<lambda>n u. Inl OSError"]
  from t [THEN conjunct1]
  obtain new where n:
    "[?top, ?c2, ?g1, ?c3] = [] @ ?top # new"
    "filter (\<lambda>i. inv_recurse_factor i = 2 - 1) new
          = (if (0::int) < 2
             then map (child_call (2 - 1))
                    (filter (\<lambda>img. Some (str_id (media_id img)) \<noteq> original_pin_id ''https://www.pinterest.com/pin/1/'')
                      three_pins)
             else [])"
    by blast
  from n(1) have "new = [?c2, ?g1, ?c3]" by simp
  with n(2) have f: "filter (\<lambda>i. inv_recurse_factor i = 2 - 1) [?c2, ?g1, ?c3]
       = map (child_call (2 - 1))
           (filter (\<lambda>img. Some (str_id (media_id img)) \<noteq> original_pin_id ''https://www.pinterest.com/pin/1/'')
             three_pins)"
    by simp
  from t [THEN conjunct2, THEN conjunct2]
  have s: "scrape_images (\<lambda>n u. (related n u)\<lparr>download_result := Inl OSError\<rparr>) False 5 0 0
        ''https://www.pinterest.com/pin/1/'' ''cats'' 2 True []
     = scrape_images related False 5 0 0 ''https://www.pinterest.com/pin/1/'' ''cats'' 2 True []"
    unfolding related_run .
  from related_run seed f s show ?thesis by (intro conjI)
qed
end
